theory Spec2Isabelle
  imports Main "HOL-Library.Char_ord" "HOL-Library.List_Lexorder" "HOL-Library.Multiset"
begin

section \<open>Python values shared by the stages\<close>

text \<open>
  The exceptions the pipeline can raise. Python raises them through the call stack; the
  model returns them as the left summand of a sum type.
\<close>

datatype error =
    ParseError
  | ValueError
  | EmptyDataError
  | ParserError
  | KeyError
  | OSError
  | OverflowError

text \<open>
  A Python \<open>dict\<close> keeps its keys in insertion order, and assigning to a key that is already
  there keeps the key's position. The transformer depends on that order (it decides the order
  of rows and columns), so a dict is an association list with distinct keys.
\<close>

type_synonym ('k, 'v) dict = "('k \<times> 'v) list"

primrec setitem :: "'k \<Rightarrow> 'v \<Rightarrow> ('k, 'v) dict \<Rightarrow> ('k, 'v) dict" where
  "setitem k v [] = [(k, v)]"
| "setitem k v (p # ps) = (if fst p = k then (k, v) # ps else p # setitem k v ps)"

definition getitem :: "('k, 'v) dict \<Rightarrow> 'k \<Rightarrow> 'v option" where
  "getitem d k = map_of d k"

definition keys :: "('k, 'v) dict \<Rightarrow> 'k list" where
  "keys d = map fst d"

text \<open>\<open>d.update(e)\<close>: every item of \<open>e\<close> is assigned into \<open>d\<close>, in the order of \<open>e\<close>.\<close>

definition dict_update :: "('k, 'v) dict \<Rightarrow> ('k, 'v) dict \<Rightarrow> ('k, 'v) dict" where
  "dict_update d e = fold (\<lambda>(k, v). setitem k v) e d"

text \<open>A dict display or comprehension: the items are assigned into an empty dict in turn.\<close>

definition dict_of :: "('k \<times> 'v) list \<Rightarrow> ('k, 'v) dict" where
  "dict_of kvs = dict_update [] kvs"

section \<open>Documents and the two parser libraries\<close>

text \<open>
  The content of an XML document: a root element, whose content is a sequence of child
  elements, character data and comments (processing instructions behave as comments do in
  both libraries). Tags are in Clark notation, \<open>{namespace}local\<close>, which is what both
  libraries report in \<open>elem.tag\<close>.
\<close>

datatype xnode =
    XElem string "xnode list"
  | XText string
  | XComment string

text \<open>
  A decompressed file, as each of the two parser libraries reads it: the tag and the
  content of the root, or the exception the library raises while it reads. The two
  libraries do not accept the same files. expat, behind \<open>xml.etree.ElementTree\<close>, refuses a
  document declared in a multi-byte encoding such as Big5 with \<open>ValueError\<close>, where libxml2,
  behind \<open>lxml\<close>, reads it; libxml2 refuses elements nested deeper than 256 levels, where
  expat reads them. So a document carries both readings. \<open>ParseError\<close> stands for the syntax
  error of either library (\<open>ParseError\<close> of ElementTree, \<open>XMLSyntaxError\<close> of lxml).
\<close>

datatype document =
  Document (lxml_reads: "error + string \<times> xnode list") (expat_reads: "error + string \<times> xnode list")

text \<open>
  A file that neither library accepts, and a file that both read as the same root element.
\<close>

abbreviation Malformed :: document where
  "Malformed \<equiv> Document (Inl ParseError) (Inl ParseError)"

abbreviation WellFormed :: "string \<Rightarrow> xnode list \<Rightarrow> document" where
  "WellFormed t ns \<equiv> Document (Inr (t, ns)) (Inr (t, ns))"

text \<open>
  What the libraries hand to the program: an element with its tag, its \<open>text\<close> (\<open>None\<close>
  when there is none) and its child elements. Attributes and tails are never read by the
  program and are left out.
\<close>

datatype element = Element (etag: string) (etext: "string option") (echildren: "element list")

definition text_of :: "string \<Rightarrow> string option" where
  "text_of s = (if s = [] then None else Some s)"

text \<open>
  \<open>lxml\<close> keeps comments in the tree as nodes of their own, so the \<open>text\<close> of an element is
  the character data before its first child node of any kind. A comment node has no string
  tag: \<open>find\<close>, \<open>findall\<close> and the \<open>tag\<close> filter of \<open>iterparse\<close> never return it, so it is
  left out of the child list.
\<close>

fun lxml_text :: "xnode list \<Rightarrow> string" where
  "lxml_text (XText s # ns) = s @ lxml_text ns"
| "lxml_text _ = []"

fun lxml_build :: "xnode \<Rightarrow> element list" where
  "lxml_build (XElem t ns) = [Element t (text_of (lxml_text ns)) (concat (map lxml_build ns))]"
| "lxml_build (XText s) = []"
| "lxml_build (XComment c) = []"

definition lxml_root :: "string \<Rightarrow> xnode list \<Rightarrow> element" where
  "lxml_root t ns = Element t (text_of (lxml_text ns)) (concat (map lxml_build ns))"

text \<open>
  \<open>xml.etree.ElementTree\<close> drops comments while it builds the tree (the default
  \<open>TreeBuilder\<close> has \<open>insert_comments=False\<close>) and joins the character data on both sides
  of a dropped comment: the \<open>text\<close> of an element is the character data before its first
  child element.
\<close>

fun et_text :: "xnode list \<Rightarrow> string" where
  "et_text (XText s # ns) = s @ et_text ns"
| "et_text (XComment c # ns) = et_text ns"
| "et_text _ = []"

fun et_build :: "xnode \<Rightarrow> element list" where
  "et_build (XElem t ns) = [Element t (text_of (et_text ns)) (concat (map et_build ns))]"
| "et_build (XText s) = []"
| "et_build (XComment c) = []"

definition et_root :: "string \<Rightarrow> xnode list \<Rightarrow> element" where
  "et_root t ns = Element t (text_of (et_text ns)) (concat (map et_build ns))"

subsection \<open>The element interface both libraries share\<close>

text \<open>\<open>elem.find(tag)\<close>: the first child element with that tag, or \<open>None\<close>.\<close>

definition find_child :: "string \<Rightarrow> element \<Rightarrow> element option" where
  "find_child t e = List.find (\<lambda>c. etag c = t) (echildren e)"

text \<open>
  \<open>elem.findtext(tag, default)\<close>: the default when no child has the tag, and the empty
  string when the child found has no text.
\<close>

definition findtext :: "string \<Rightarrow> string \<Rightarrow> element \<Rightarrow> string" where
  "findtext t dflt e =
     (case find_child t e of
        None \<Rightarrow> dflt
      | Some c \<Rightarrow> (case etext c of None \<Rightarrow> [] | Some s \<Rightarrow> s))"

text \<open>\<open>elem.findall(".//tag")\<close>: every descendant element with that tag, in document order.\<close>

fun descendants :: "element \<Rightarrow> element list" where
  "descendants (Element t x cs) = concat (map (\<lambda>c. c # descendants c) cs)"

definition findall_desc :: "string \<Rightarrow> element \<Rightarrow> element list" where
  "findall_desc t e = filter (\<lambda>d. etag d = t) (descendants e)"

text \<open>\<open>elem.clear()\<close> removes the children and the text of the element and keeps its tag.\<close>

definition clear :: "element \<Rightarrow> element" where
  "clear e = Element (etag e) None []"

text \<open>
  \<open>for _, elem in iterparse(path, events=("end",))\<close>: the loop body runs once for every
  element, when its end tag has been read, so children come before their parent. The body
  may change the element in place (\<open>elem.clear()\<close>); the parent then holds the changed
  child when its own turn comes. The body is a function from the element and the loop's
  state to the new state and the element as the body left it.
\<close>

fun iterparse_end :: "(element \<Rightarrow> 's \<Rightarrow> 's \<times> element) \<Rightarrow> element \<Rightarrow> 's \<Rightarrow> 's \<times> element"
  and iterparse_ends :: "(element \<Rightarrow> 's \<Rightarrow> 's \<times> element) \<Rightarrow> element list \<Rightarrow> 's \<Rightarrow> 's \<times> element list"
where
  "iterparse_end body (Element t x cs) s =
     (case iterparse_ends body cs s of (s1, cs1) \<Rightarrow> body (Element t x cs1) s1)"
| "iterparse_ends body [] s = (s, [])"
| "iterparse_ends body (c # cs) s =
     (case iterparse_end body c s of (s1, c1) \<Rightarrow>
        (case iterparse_ends body cs s1 of (s2, cs2) \<Rightarrow> (s2, c1 # cs2)))"

text \<open>\<open>lxml\<close>'s \<open>iterparse(..., tag=t)\<close> runs the body only for the elements with tag \<open>t\<close>.\<close>

definition iterparse_tag ::
  "string \<Rightarrow> (element \<Rightarrow> 's \<Rightarrow> 's \<times> element) \<Rightarrow> element \<Rightarrow> 's \<Rightarrow> 's \<times> element" where
  "iterparse_tag t body = iterparse_end (\<lambda>e s. if etag e = t then body e s else (s, e))"

section \<open>Document Transformer\<close>

definition NS :: string where
  "NS = ''{http://traffic.transportdata.tw/standard/traffic/schema/}''"

type_synonym lane_rec = "(string, string) dict"
type_synonym lanes = "(string, lane_rec) dict"
type_synonym devices = "(string, lanes) dict"

text \<open>The body of the loop over the \<open>Vehicle\<close> elements of a lane; \<open>rec\<close> is the Lane Record.\<close>

definition add_vehicle :: "element \<Rightarrow> lane_rec \<Rightarrow> lane_rec" where
  "add_vehicle veh rec =
     (let vt = findtext (NS @ ''VehicleType'') [] veh in
      if vt = [] then rec
      else setitem (vt @ ''_Vehicle_Speed'') (findtext (NS @ ''Speed'') [] veh)
             (setitem (vt @ ''_Volume'') (findtext (NS @ ''Volume'') [] veh) rec))"

text \<open>
  The body of the loop over the \<open>Lane\<close> elements of a device. \<open>lanes.setdefault(key, {})\<close>
  returns the record already stored under the key, or stores an empty one at the end; the
  record is then changed in place, which is an assignment under the same key.
\<close>

definition add_lane :: "element \<Rightarrow> lanes \<Rightarrow> lanes" where
  "add_lane lane lns =
     (let lane_id = findtext (NS @ ''LaneID'') [] lane;
          key = ''L'' @ lane_id;
          rec0 = (case getitem lns key of None \<Rightarrow> [] | Some r \<Rightarrow> r);
          rec1 = setitem ''Speed'' (findtext (NS @ ''Speed'') [] lane) rec0;
          rec2 = setitem ''Occupancy'' (findtext (NS @ ''Occupancy'') [] lane) rec1;
          rec3 = fold add_vehicle (findall_desc (NS @ ''Vehicle'') lane) rec2
      in setitem key rec3 lns)"

text \<open>What both loop bodies do with a \<open>VDLive\<close> element whose device identifier is not empty.\<close>

definition add_device :: "string \<Rightarrow> element \<Rightarrow> devices \<Rightarrow> devices" where
  "add_device vdid elem data =
     (let lns0 = (case getitem data vdid of None \<Rightarrow> [] | Some l \<Rightarrow> l);
          lns1 = fold add_lane (findall_desc (NS @ ''Lane'') elem) lns0
      in setitem vdid lns1 data)"

text \<open>
  The loop body of \<open>_parse_xml_lxml\<close> (main.py). The identifier is read with \<open>find\<close> and
  \<open>.text\<close>, so it is \<open>None\<close> when the \<open>VDID\<close> child has no text; \<open>not vdid\<close> holds for \<open>None\<close>
  and for the empty string.
\<close>

definition lxml_body :: "element \<Rightarrow> devices \<Rightarrow> devices \<times> element" where
  "lxml_body elem data =
     (let vdid = (case find_child (NS @ ''VDID'') elem of None \<Rightarrow> Some [] | Some c \<Rightarrow> etext c) in
      if vdid = None \<or> vdid = Some [] then (data, clear elem)
      else (add_device (the vdid) elem data, clear elem))"

text \<open>
  The loop body of \<open>_parse_xml\<close> (vd_pipeline_refactored.py). The loop sees every element
  and skips, without clearing it, each one that is not a \<open>VDLive\<close>.
\<close>

definition et_body :: "element \<Rightarrow> devices \<Rightarrow> devices \<times> element" where
  "et_body elem data =
     (if etag elem \<noteq> NS @ ''VDLive'' then (data, elem)
      else
        (let vdid = findtext (NS @ ''VDID'') [] elem in
         if vdid = [] then (data, clear elem)
         else (add_device vdid elem data, clear elem)))"

text \<open>The second loop of both functions: one row (a dict) per device.\<close>

definition flatten_lane :: "string \<Rightarrow> lane_rec \<Rightarrow> (string, string) dict" where
  "flatten_lane lane_id kv = dict_of (map (\<lambda>(k, v). (lane_id @ ''_'' @ k, v)) kv)"

definition flatten_device :: "string \<Rightarrow> lanes \<Rightarrow> (string, string) dict" where
  "flatten_device vdid lns =
     fold (\<lambda>(lane_id, kv) row. dict_update row (flatten_lane lane_id kv)) lns [(''VDID'', vdid)]"

definition flatten_rows :: "devices \<Rightarrow> (string, string) dict list" where
  "flatten_rows data = map (\<lambda>(vdid, lns). flatten_device vdid lns) data"

section \<open>Tables\<close>

text \<open>
  A \<open>pandas.DataFrame\<close>: the column labels in order, and the rows, each with one cell per
  column. A cell is a value or \<open>NaN\<close>, the marker of an absent value.
\<close>

datatype cell = NaN | Str string

record dataframe =
  columns :: "string list"
  rows :: "cell list list"

text \<open>Appending the labels not yet present, in the order they come.\<close>

fun add_new :: "'a list \<Rightarrow> 'a list \<Rightarrow> 'a list" where
  "add_new acc [] = acc"
| "add_new acc (x # xs) = add_new (if x \<in> set acc then acc else acc @ [x]) xs"

text \<open>
  \<open>pd.DataFrame(rows)\<close> for a list of dicts: the columns are the keys in the order of their
  first appearance, and a row without a key has \<open>NaN\<close> in that column.
\<close>

definition DataFrame :: "(string, string) dict list \<Rightarrow> dataframe" where
  "DataFrame ds =
     (let cols = add_new [] (concat (map keys ds)) in
      \<lparr>columns = cols,
       rows = map (\<lambda>d. map (\<lambda>c. case getitem d c of None \<Rightarrow> NaN | Some v \<Rightarrow> Str v) cols) ds\<rparr>)"

text \<open>
  \<open>_parse_xml_lxml\<close> and \<open>_parse_xml\<close>. When the library raises while it reads the file,
  the exception leaves the loop and the function; no table is returned.
\<close>

definition parse_xml_lxml :: "document \<Rightarrow> error + dataframe" where
  "parse_xml_lxml doc =
     (case lxml_reads doc of
        Inl err \<Rightarrow> Inl err
      | Inr (t, ns) \<Rightarrow>
          Inr (DataFrame (flatten_rows
            (fst (iterparse_tag (NS @ ''VDLive'') lxml_body (lxml_root t ns) [])))))"

definition parse_xml :: "document \<Rightarrow> error + dataframe" where
  "parse_xml doc =
     (case expat_reads doc of
        Inl err \<Rightarrow> Inl err
      | Inr (t, ns) \<Rightarrow>
          Inr (DataFrame (flatten_rows
            (fst (iterparse_end et_body (et_root t ns) [])))))"

section \<open>Table Combiner and Partition Writer: the pandas operations\<close>

text \<open>The cell of a row under a column label; \<open>NaN\<close> when the table has no such column.\<close>

definition cell_of :: "dataframe \<Rightarrow> cell list \<Rightarrow> string \<Rightarrow> cell" where
  "cell_of df r c = (case map_of (zip (columns df) r) c of None \<Rightarrow> NaN | Some x \<Rightarrow> x)"

text \<open>
  \<open>df.assign(file_name=v)\<close>: a column with the value \<open>v\<close> in every row; it replaces a
  column of that name or is appended as the last column.
\<close>

definition assign :: "string \<Rightarrow> string \<Rightarrow> dataframe \<Rightarrow> dataframe" where
  "assign c v df =
     (if c \<in> set (columns df)
      then \<lparr>columns = columns df,
            rows = map (\<lambda>r. map (\<lambda>(c', x). if c' = c then Str v else x) (zip (columns df) r)) (rows df)\<rparr>
      else \<lparr>columns = columns df @ [c], rows = map (\<lambda>r. r @ [Str v]) (rows df)\<rparr>)"

text \<open>
  \<open>pd.concat(objs, ignore_index=True)\<close>: with nothing to concatenate it raises
  \<open>ValueError\<close>. Otherwise the columns are the labels of all tables in the order of their
  first appearance, the rows are the rows of the tables in turn, and a row has \<open>NaN\<close> under
  every label its own table lacks.
\<close>

definition concat_frames :: "dataframe list \<Rightarrow> error + dataframe" where
  "concat_frames dfs =
     (if dfs = [] then Inl ValueError
      else
        (let cols = add_new [] (concat (map columns dfs)) in
         Inr \<lparr>columns = cols,
              rows = concat (map (\<lambda>df. map (\<lambda>r. map (cell_of df r) cols) (rows df)) dfs)\<rparr>))"

text \<open>
  \<open>df.groupby(c)\<close>, iterated: \<open>KeyError\<close> when there is no column \<open>c\<close>. Otherwise one
  group per distinct value of the column, in sorted order of the values; a group holds the
  rows with that value, in the order of the table; rows with \<open>NaN\<close> in the column belong to
  no group (\<open>dropna=True\<close> is the default).
\<close>

definition group_keys :: "string \<Rightarrow> dataframe \<Rightarrow> string list" where
  "group_keys c df =
     sort (remdups (concat (map (\<lambda>r. case cell_of df r c of NaN \<Rightarrow> [] | Str s \<Rightarrow> [s]) (rows df))))"

definition groupby :: "string \<Rightarrow> dataframe \<Rightarrow> error + (string \<times> dataframe) list" where
  "groupby c df =
     (if c \<notin> set (columns df) then Inl KeyError
      else Inr (map (\<lambda>k. (k, \<lparr>columns = columns df,
                               rows = filter (\<lambda>r. cell_of df r c = Str k) (rows df)\<rparr>))
                 (group_keys c df)))"

text \<open>
  The argument of \<open>pd.concat\<close> in \<open>split_by_vdid\<close>, for the tables that \<open>pd.read_csv\<close>
  returned for the files of the directory: each is stamped with the name of its file.
\<close>

definition combine :: "(string \<times> dataframe) list \<Rightarrow> error + dataframe" where
  "combine tables = concat_frames (map (\<lambda>(name, df). assign ''file_name'' name df) tables)"

section \<open>The file system, the network and the stages\<close>

subsection \<open>Strings and paths\<close>

text \<open>\<open>str(n)\<close> for a natural number, and the format \<open>{n:0wd}\<close> that pads it with zeros.\<close>

definition digit :: "nat \<Rightarrow> char" where
  "digit n = ''0123456789'' ! (n mod 10)"

fun decimal :: "nat \<Rightarrow> string" where
  "decimal n = (if n < 10 then [digit n] else decimal (n div 10) @ [digit n])"

definition zero_padded :: "nat \<Rightarrow> nat \<Rightarrow> string" where
  "zero_padded w n = replicate (w - length (decimal n)) (CHR ''0'') @ decimal n"

text \<open>\<open>s.endswith(suf)\<close>, and \<open>s.replace(old, new)\<close> for a non-empty \<open>old\<close>.\<close>

definition endswith :: "string \<Rightarrow> string \<Rightarrow> bool" where
  "endswith s suf = (length suf \<le> length s \<and> drop (length s - length suf) s = suf)"

fun replace_from :: "nat \<Rightarrow> string \<Rightarrow> string \<Rightarrow> string \<Rightarrow> string" where
  "replace_from k old new [] = []"
| "replace_from (Suc k) old new (c # s) = replace_from k old new s"
| "replace_from 0 old new (c # s) =
     (if take (length old) (c # s) = old
      then new @ replace_from (length old - 1) old new s
      else c # replace_from 0 old new s)"

definition replace :: "string \<Rightarrow> string \<Rightarrow> string \<Rightarrow> string" where
  "replace old new s = replace_from 0 old new s"

text \<open>
  Paths are strings with \<open>/\<close> between the parts, as \<open>pathlib\<close> prints them: \<open>a / b\<close>,
  \<open>p.name\<close>, \<open>p.parent\<close>, and \<open>p.with_suffix(s)\<close>, which replaces what follows the last dot
  of the name (a dot that starts or ends the name does not count).
\<close>

type_synonym path = string

definition joinpath :: "path \<Rightarrow> string \<Rightarrow> path" where
  "joinpath a b = a @ ''/'' @ b"

definition basename :: "path \<Rightarrow> string" where
  "basename p = rev (takeWhile (\<lambda>c. c \<noteq> CHR ''/'') (rev p))"

definition parent :: "path \<Rightarrow> path" where
  "parent p = rev (drop 1 (dropWhile (\<lambda>c. c \<noteq> CHR ''/'') (rev p)))"

definition stem :: "string \<Rightarrow> string" where
  "stem n =
     (let ext = takeWhile (\<lambda>c. c \<noteq> CHR ''.'') (rev n);
          rest = dropWhile (\<lambda>c. c \<noteq> CHR ''.'') (rev n)
      in if rest = [] \<or> ext = [] \<or> tl rest = [] then n else rev (tl rest))"

definition with_suffix :: "path \<Rightarrow> string \<Rightarrow> path" where
  "with_suffix p s = joinpath (parent p) (stem (basename p) @ s)"

definition under :: "path \<Rightarrow> path \<Rightarrow> bool" where
  "under dir p = (take (length dir + 1) p = dir @ ''/'')"

subsection \<open>Files, the network, the world\<close>

text \<open>
  A file is a compressed artifact (its size in bytes, and the document \<open>gzip\<close> reads from
  it, or \<open>None\<close> when \<open>gzip\<close> raises while reading), a document, a table written by
  \<open>to_csv\<close>, or a zip archive. Directories are not files: a directory is there when a file is
  under it.
\<close>

datatype content =
    Gz nat "document option"
  | Xml document
  | Csv dataframe
  | Zip "(path \<times> content) list"

text \<open>
  What a retrieval does: \<open>sess.get\<close> or \<open>raise_for_status\<close> raises before anything is
  written; or the body breaks off after some bytes were written; or the whole body arrives.
\<close>

datatype response =
    NoResponse
  | Broken nat
  | Body nat "document option"

text \<open>
  The configuration and what the program does not control: the archive (the response to each
  URL) and the order in which \<open>as_completed\<close> yields the parse results.
\<close>

record env =
  BASE_DIR :: path
  MIN_FILE_SIZE :: int
  net :: "string \<Rightarrow> response"
  as_completed :: "path list \<Rightarrow> path list"

text \<open>
  The world the program changes: the files, in the order in which they were created (which
  is the order \<open>glob\<close> lists them in), and the URLs it has retrieved, in order. Logging is
  not modelled.
\<close>

record world =
  fs :: "(path, content) dict"
  requests :: "string list"

definition exists_path :: "path \<Rightarrow> world \<Rightarrow> bool" where
  "exists_path p w = (getitem (fs w) p \<noteq> None)"

definition write_file :: "path \<Rightarrow> content \<Rightarrow> world \<Rightarrow> world" where
  "write_file p f w = w\<lparr>fs := setitem p f (fs w)\<rparr>"

definition unlink :: "path \<Rightarrow> world \<Rightarrow> world" where
  "unlink p w = w\<lparr>fs := filter (\<lambda>(q, f). q \<noteq> p) (fs w)\<rparr>"

definition rmtree :: "path \<Rightarrow> world \<Rightarrow> world" where
  "rmtree dir w = w\<lparr>fs := filter (\<lambda>(q, f). \<not> under dir q) (fs w)\<rparr>"

text \<open>
  \<open>dir.glob("*" + suf)\<close>: the files directly in \<open>dir\<close> whose name ends with \<open>suf\<close>.
  \<open>pathlib\<close> yields them in the order of the directory, which the program does not
  control; the model lists them in the order of their creation. No statement below depends
  on that order.
\<close>

definition glob :: "path \<Rightarrow> string \<Rightarrow> world \<Rightarrow> path list" where
  "glob dir suf w = filter (\<lambda>p. parent p = dir \<and> endswith (basename p) suf) (keys (fs w))"

subsection \<open>1. Download\<close>

text \<open>
  \<open>_download_one\<close>. An existing destination is taken as it is. Otherwise the URL is
  retrieved; when the retrieval raises, the destination is unlinked (whether or not a part
  of it was written) and the result is \<open>False\<close>; when it succeeds, the file is kept only if
  its size is at least \<open>MIN_FILE_SIZE\<close>.
\<close>

definition download_one :: "env \<Rightarrow> string \<Rightarrow> path \<Rightarrow> world \<Rightarrow> bool \<times> world" where
  "download_one e url dest w =
     (if exists_path dest w then (True, w)
      else
        (let w1 = w\<lparr>requests := requests w @ [url]\<rparr> in
         case net e url of
           NoResponse \<Rightarrow> (False, unlink dest w1)
         | Broken n \<Rightarrow> (False, unlink dest (write_file dest (Gz n None) w1))
         | Body n d \<Rightarrow>
             (let w2 = write_file dest (Gz n d) w1 in
              if int n < MIN_FILE_SIZE e then (False, unlink dest w2) else (True, w2))))"

definition gz_name :: "nat \<Rightarrow> nat \<Rightarrow> string" where
  "gz_name h m = ''VDLive_'' @ zero_padded 2 h @ zero_padded 2 m @ ''.xml.gz''"

text \<open>The Resource Descriptor of minute \<open>m\<close> of hour \<open>h\<close>: the URL and the destination.\<close>

definition task :: "env \<Rightarrow> string \<Rightarrow> nat \<Rightarrow> nat \<Rightarrow> string \<times> path" where
  "task e date h m =
     (''https://tisvcloud.freeway.gov.tw/history/motc20/VD/'' @ date @ ''/'' @ gz_name h m,
      joinpath (joinpath (joinpath (BASE_DIR e) date) ''compressed'') (gz_name h m))"

definition tasks :: "env \<Rightarrow> string \<Rightarrow> (string \<times> path) list" where
  "tasks e date = concat (map (\<lambda>h. map (\<lambda>m. task e date h m) [0..<60]) [0..<24])"

text \<open>
  \<open>download_day\<close>. The workers of the pool touch no file but their own destination, so the
  files they leave do not depend on how the pool interleaves them; the model runs the tasks
  in the order of the list. The result is the day folder, \<open>base.parent\<close>.
\<close>

definition run_tasks :: "env \<Rightarrow> (string \<times> path) list \<Rightarrow> world \<Rightarrow> world" where
  "run_tasks e ts w = fold (\<lambda>(url, dest) w. snd (download_one e url dest w)) ts w"

definition download_day :: "env \<Rightarrow> string \<Rightarrow> world \<Rightarrow> path \<times> world" where
  "download_day e date w = (joinpath (BASE_DIR e) date, run_tasks e (tasks e date) w)"

subsection \<open>2. Decompress\<close>

text \<open>
  The body of the loop of \<open>decompress_day\<close>. The output file is opened before \<open>gzip\<close> reads
  anything, so when \<open>gzip\<close> raises, the exception is caught and what was written so far stays
  in the output file: a document that is not well-formed.
\<close>

definition decompress_one :: "path \<Rightarrow> path \<Rightarrow> world \<Rightarrow> world" where
  "decompress_one dst gz w =
     (let out = joinpath dst (stem (basename gz)) in
      if exists_path out w then w
      else (case getitem (fs w) gz of
              Some (Gz n (Some d)) \<Rightarrow> write_file out (Xml d) w
            | _ \<Rightarrow> write_file out (Xml Malformed) w))"

definition decompress_day :: "path \<Rightarrow> world \<Rightarrow> path \<times> world" where
  "decompress_day day_path w =
     (let src = joinpath day_path ''compressed'';
          dst = joinpath day_path ''decompressed''
      in (dst, fold (decompress_one dst) (glob src ''.xml.gz'' w) w))"

subsection \<open>3. XML to CSV\<close>

text \<open>What a worker returns for a file: the table, or the exception the parser raised.\<close>

definition parse_file :: "(document \<Rightarrow> error + dataframe) \<Rightarrow> world \<Rightarrow> path \<Rightarrow> error + dataframe" where
  "parse_file parse w p = (case getitem (fs w) p of Some (Xml d) \<Rightarrow> parse d | _ \<Rightarrow> Inl ParseError)"

text \<open>
  The loop \<open>for fut in as_completed(fut_to_name)\<close>: \<open>fut.result()\<close> raises again the
  exception of the worker, and nothing in the loop catches it, so the loop ends there; the
  tables written before stay.
\<close>

fun write_results :: "path \<Rightarrow> (path \<times> (error + dataframe)) list \<Rightarrow> world \<Rightarrow> (error + unit) \<times> world" where
  "write_results dst [] w = (Inr (), w)"
| "write_results dst ((p, Inl err) # rs) w = (Inl err, w)"
| "write_results dst ((p, Inr df) # rs) w =
     write_results dst rs
       (write_file (joinpath dst (replace ''.xml'' ''.csv'' (basename p))) (Csv df) w)"

text \<open>
  \<open>xml_to_csv\<close>, with the parser of the file at hand: \<open>_parse_xml_lxml\<close> in main.py,
  \<open>_parse_xml\<close> in vd_pipeline_refactored.py.
\<close>

definition xml_to_csv ::
  "(document \<Rightarrow> error + dataframe) \<Rightarrow> env \<Rightarrow> path \<Rightarrow> world \<Rightarrow> (error + path) \<times> world" where
  "xml_to_csv parse e day_folder w =
     (let src = joinpath day_folder ''decompressed'';
          dst = joinpath day_folder ''csv'';
          xml_files = glob src ''.xml'' w;
          results = map (\<lambda>p. (p, parse_file parse w p)) (as_completed e xml_files)
      in case write_results dst results w of
           (Inl err, w') \<Rightarrow> (Inl err, w')
         | (Inr u, w') \<Rightarrow> (Inr dst, w'))"

subsection \<open>4. Split by VDID\<close>

text \<open>
  \<open>pd.read_csv\<close> on a file that \<open>to_csv(index=False)\<close> wrote. A table without columns was
  written as an empty line, and reading it raises \<open>EmptyDataError\<close>. A cell comes back as
  \<open>NaN\<close> when its text is empty or one of the default markers of a missing value. A cell
  keeps its text: the conversion of an all-numeric column to numbers is not modelled.
\<close>

definition na_values :: "string list" where
  "na_values = ['''', ''#N/A'', ''#N/A N/A'', ''#NA'', ''-1.#IND'', ''-1.#QNAN'', ''-NaN'', ''-nan'',
     ''1.#IND'', ''1.#QNAN'', ''<NA>'', ''N/A'', ''NA'', ''NULL'', ''NaN'', ''None'', ''n/a'',
     ''nan'', ''null'']"

definition read_cell :: "cell \<Rightarrow> cell" where
  "read_cell x = (case x of NaN \<Rightarrow> NaN | Str s \<Rightarrow> if s \<in> set na_values then NaN else Str s)"

definition read_csv :: "world \<Rightarrow> path \<Rightarrow> error + dataframe" where
  "read_csv w p =
     (case getitem (fs w) p of
        Some (Csv df) \<Rightarrow>
          if columns df = [] then Inl EmptyDataError
          else Inr \<lparr>columns = columns df, rows = map (map read_cell) (rows df)\<rparr>
      | _ \<Rightarrow> Inl ParserError)"

text \<open>
  The generator handed to \<open>pd.concat\<close>: the files are read in turn, and the first one that
  cannot be read ends it with its exception.
\<close>

fun read_all :: "world \<Rightarrow> path list \<Rightarrow> error + (string \<times> dataframe) list" where
  "read_all w [] = Inr []"
| "read_all w (p # ps) =
     (case read_csv w p of
        Inl err \<Rightarrow> Inl err
      | Inr df \<Rightarrow> (case read_all w ps of Inl err \<Rightarrow> Inl err | Inr ts \<Rightarrow> Inr ((basename p, df) # ts)))"

text \<open>
  The loop that writes the groups. \<open>to_csv\<close> creates the file \<open>{vdid}.csv\<close> in the output
  directory. A name with a NUL byte is refused with \<open>ValueError\<close>; a name longer than 255
  bytes is refused by the file system, and a name with a slash names a file in another
  directory, which is not there: \<open>OSError\<close>. Nothing catches the exception, so the loop ends
  at the first such name; the groups written before stay.
\<close>

definition usable_name :: "string \<Rightarrow> bool" where
  "usable_name n = (CHR ''/'' \<notin> set n \<and> CHR 0x00 \<notin> set n \<and> length n \<le> 255)"

fun write_groups :: "path \<Rightarrow> (string \<times> dataframe) list \<Rightarrow> world \<Rightarrow> (error + unit) \<times> world" where
  "write_groups out_dir [] w = (Inr (), w)"
| "write_groups out_dir ((vdid, gdf) # gs) w =
     (if CHR 0x00 \<in> set (vdid @ ''.csv'') then (Inl ValueError, w)
      else if \<not> usable_name (vdid @ ''.csv'') then (Inl OSError, w)
      else write_groups out_dir gs (write_file (joinpath out_dir (vdid @ ''.csv'')) (Csv gdf) w))"

definition split_by_vdid :: "path \<Rightarrow> world \<Rightarrow> (error + path) \<times> world" where
  "split_by_vdid csv_dir w =
     (let out_dir = joinpath (parent csv_dir) ''VDID'' in
      case read_all w (glob csv_dir ''.csv'' w) of
        Inl err \<Rightarrow> (Inl err, w)
      | Inr tables \<Rightarrow>
          (case combine tables of
             Inl err \<Rightarrow> (Inl err, w)
           | Inr combined \<Rightarrow>
               (case groupby ''VDID'' combined of
                  Inl err \<Rightarrow> (Inl err, w)
                | Inr groups \<Rightarrow>
                    (case write_groups out_dir groups w of
                       (Inl err, w') \<Rightarrow> (Inl err, w')
                     | (Inr u, w') \<Rightarrow> (Inr out_dir, w')))))"

subsection \<open>5. Cleanup and zip\<close>

definition cleanup :: "path \<Rightarrow> bool \<Rightarrow> bool \<Rightarrow> bool \<Rightarrow> world \<Rightarrow> world" where
  "cleanup day_folder keep_gz keep_xml keep_csv w =
     (let w1 = (if \<not> keep_gz then rmtree (joinpath day_folder ''compressed'') w else w);
          w2 = (if \<not> keep_xml then rmtree (joinpath day_folder ''decompressed'') w1 else w1)
      in if \<not> keep_csv then rmtree (joinpath day_folder ''csv'') w2 else w2)"

text \<open>
  \<open>zip_day\<close>: the archive holds every file under the day folder, named relative to the
  parent of the day folder.
\<close>

definition zip_day :: "path \<Rightarrow> bool \<Rightarrow> world \<Rightarrow> path \<times> world" where
  "zip_day day_folder delete_after w =
     (let zip_path = with_suffix day_folder ''.zip'';
          members = map (\<lambda>(p, f). (drop (length (parent day_folder) + 1) p, f))
                      (filter (\<lambda>(p, f). under day_folder p) (fs w));
          w1 = write_file zip_path (Zip members) w
      in (zip_path, if delete_after then rmtree day_folder w1 else w1))"

subsection \<open>6. Orchestration\<close>

record flags =
  keep_gz :: bool
  keep_xml :: bool
  keep_csv :: bool
  zip_and_delete :: bool

text \<open>
  \<open>process_day\<close>: the stages in sequence. An exception of a stage leaves \<open>process_day\<close> at
  once, with the files as that stage left them.
\<close>

definition process_day ::
  "(document \<Rightarrow> error + dataframe) \<Rightarrow> env \<Rightarrow> string \<Rightarrow> flags \<Rightarrow> world \<Rightarrow> (error + unit) \<times> world" where
  "process_day parse e date fl w =
     (case download_day e date w of (day_folder, w1) \<Rightarrow>
      case decompress_day day_folder w1 of (dst, w2) \<Rightarrow>
      case xml_to_csv parse e day_folder w2 of
        (Inl err, w3) \<Rightarrow> (Inl err, w3)
      | (Inr csv_dir, w3) \<Rightarrow>
          (case split_by_vdid csv_dir w3 of
             (Inl err, w4) \<Rightarrow> (Inl err, w4)
           | (Inr out_dir, w4) \<Rightarrow>
               (let w5 = cleanup day_folder (keep_gz fl) (keep_xml fl) (keep_csv fl) w4 in
                (Inr (), if zip_and_delete fl then snd (zip_day day_folder True w5) else w5))))"

subsection \<open>Dates and the batch loop\<close>

text \<open>A \<open>datetime\<close> at midnight: the proleptic Gregorian calendar, years 1 to 9999.\<close>

record date =
  year :: nat
  month :: nat
  day :: nat

definition leap :: "nat \<Rightarrow> bool" where
  "leap y = (y mod 4 = 0 \<and> (y mod 100 \<noteq> 0 \<or> y mod 400 = 0))"

definition days_in_month :: "nat \<Rightarrow> nat \<Rightarrow> nat" where
  "days_in_month y m =
     (if m = 2 then (if leap y then 29 else 28)
      else if m = 4 \<or> m = 6 \<or> m = 9 \<or> m = 11 then 30 else 31)"

text \<open>
  \<open>datetime.strptime(s, "%Y%m%d")\<close> matches the regular expression
  \<open>(\d\d\d\d)(1[0-2]|0[1-9]|[1-9])(3[01]|[12]\d|0[1-9]|[1-9]| [1-9])\<close> at the start of the
  string, trying the alternatives in this order, and raises \<open>ValueError\<close> when there is no
  match, when the match leaves a rest, or when the three numbers are not a date.
\<close>

definition is_digit :: "char \<Rightarrow> bool" where
  "is_digit c = (c \<in> set ''0123456789'')"

definition digit_val :: "char \<Rightarrow> nat" where
  "digit_val c = of_char c - 48"

fun year_matches :: "string \<Rightarrow> (nat \<times> string) list" where
  "year_matches (a # b # c # d # rest) =
     (if is_digit a \<and> is_digit b \<and> is_digit c \<and> is_digit d
      then [(1000 * digit_val a + 100 * digit_val b + 10 * digit_val c + digit_val d, rest)]
      else [])"
| "year_matches _ = []"

definition two_chars :: "string \<Rightarrow> string \<Rightarrow> string \<Rightarrow> (nat \<times> string) list" where
  "two_chars firsts seconds s =
     (case s of
        a # b # rest \<Rightarrow>
          if a \<in> set firsts \<and> b \<in> set seconds then [(10 * digit_val a + digit_val b, rest)] else []
      | _ \<Rightarrow> [])"

definition one_char :: "string \<Rightarrow> string \<Rightarrow> (nat \<times> string) list" where
  "one_char firsts s =
     (case s of a # rest \<Rightarrow> if a \<in> set firsts then [(digit_val a, rest)] else [] | _ \<Rightarrow> [])"

definition month_matches :: "string \<Rightarrow> (nat \<times> string) list" where
  "month_matches s =
     two_chars ''1'' ''012'' s @ two_chars ''0'' ''123456789'' s @ one_char ''123456789'' s"

definition space_digit :: "string \<Rightarrow> (nat \<times> string) list" where
  "space_digit s =
     (case s of
        a # b # rest \<Rightarrow>
          if a = CHR '' '' \<and> b \<in> set ''123456789'' then [(digit_val b, rest)] else []
      | _ \<Rightarrow> [])"

definition day_matches :: "string \<Rightarrow> (nat \<times> string) list" where
  "day_matches s =
     two_chars ''3'' ''01'' s @ two_chars ''12'' ''0123456789'' s @ two_chars ''0'' ''123456789'' s
     @ one_char ''123456789'' s @ space_digit s"

definition strptime :: "string \<Rightarrow> error + date" where
  "strptime s =
     (case [(y, m, d, r3). (y, r1) \<leftarrow> year_matches s, (m, r2) \<leftarrow> month_matches r1,
                            (d, r3) \<leftarrow> day_matches r2] of
        [] \<Rightarrow> Inl ValueError
      | (y, m, d, rest) # others \<Rightarrow>
          if rest \<noteq> [] then Inl ValueError
          else if y < 1 \<or> days_in_month y m < d then Inl ValueError
          else Inr \<lparr>year = y, month = m, day = d\<rparr>)"

text \<open>
  \<open>dt.strftime("%Y%m%d")\<close>. The year is printed by the C library of the platform; the
  model follows glibc, which does not pad a year below 1000.
\<close>

definition strftime :: "date \<Rightarrow> string" where
  "strftime dt = decimal (year dt) @ zero_padded 2 (month dt) @ zero_padded 2 (day dt)"

text \<open>\<open>dt - timedelta(days=1)\<close>; before the first day of year 1 it raises \<open>OverflowError\<close>.\<close>

definition minus_one_day :: "date \<Rightarrow> error + date" where
  "minus_one_day dt =
     (if 1 < day dt then Inr (dt\<lparr>day := day dt - 1\<rparr>)
      else if 1 < month dt
        then Inr (dt\<lparr>month := month dt - 1, day := days_in_month (year dt) (month dt - 1)\<rparr>)
      else if 1 < year dt then Inr \<lparr>year = year dt - 1, month = 12, day = 31\<rparr>
      else Inl OverflowError)"

text \<open>
  \<open>batch\<close>: the body of \<open>for _ in range(days)\<close> calls \<open>process_day\<close> and then steps the date
  back. Nothing in the loop catches an exception, so the first one ends the loop.
\<close>

fun batch_loop ::
  "(document \<Rightarrow> error + dataframe) \<Rightarrow> env \<Rightarrow> flags \<Rightarrow> nat \<Rightarrow> date \<Rightarrow> world \<Rightarrow> (error + unit) \<times> world" where
  "batch_loop parse e fl 0 dt w = (Inr (), w)"
| "batch_loop parse e fl (Suc n) dt w =
     (case process_day parse e (strftime dt) fl w of
        (Inl err, w1) \<Rightarrow> (Inl err, w1)
      | (Inr u, w1) \<Rightarrow>
          (case minus_one_day dt of
             Inl err \<Rightarrow> (Inl err, w1)
           | Inr dt1 \<Rightarrow> batch_loop parse e fl n dt1 w1))"

definition batch ::
  "(document \<Rightarrow> error + dataframe) \<Rightarrow> env \<Rightarrow> string \<Rightarrow> int \<Rightarrow> flags \<Rightarrow> world \<Rightarrow> (error + unit) \<times> world" where
  "batch parse e start_date days fl w =
     (case strptime start_date of
        Inl err \<Rightarrow> (Inl err, w)
      | Inr dt \<Rightarrow> batch_loop parse e fl (nat days) dt w)"

section \<open>Notions used in the statements\<close>

text \<open>The rows of a table as dicts from column label to cell.\<close>

definition records :: "dataframe \<Rightarrow> (string, cell) dict list" where
  "records df = map (zip (columns df)) (rows df)"

text \<open>
  The invariant of the collected devices: no device identifier is empty, and every lane
  key starts with \<open>L\<close>.
\<close>

definition lane_keys_ok :: "lanes \<Rightarrow> bool" where
  "lane_keys_ok lns = (\<forall>k \<in> set (keys lns). \<exists>x. k = CHR ''L'' # x)"

definition devices_ok :: "devices \<Rightarrow> bool" where
  "devices_ok data = (\<forall>(vdid, lns) \<in> set data. vdid \<noteq> [] \<and> lane_keys_ok lns)"

text \<open>Content without comments (and processing instructions).\<close>

fun comment_free :: "xnode \<Rightarrow> bool" where
  "comment_free (XElem t ns) = list_all comment_free ns"
| "comment_free (XText s) = True"
| "comment_free (XComment c) = False"

text \<open>The classification value of a \<open>Vehicle\<close> element, as the loop reads it.\<close>

definition vt_of :: "element \<Rightarrow> string" where
  "vt_of veh = findtext (NS @ ''VehicleType'') [] veh"


text \<open>
  What a run of the Fetch Scheduler may do to a path: a file that was there is kept as it
  was, and a file that was not there is absent or at least as large as the threshold.
\<close>

definition kept_or_valid :: "env \<Rightarrow> world \<Rightarrow> world \<Rightarrow> bool" where
  "kept_or_valid e w w' =
     (\<forall>p. (exists_path p w \<longrightarrow> getitem (fs w') p = getitem (fs w) p)
        \<and> (\<not> exists_path p w \<longrightarrow> getitem (fs w') p = None \<or>
               (\<exists>n d. getitem (fs w') p = Some (Gz n d) \<and> MIN_FILE_SIZE e \<le> int n)))"

text \<open>
  The batch in words: the dates of the request, each one day before the last, and a run
  that processes a list of dates in turn and stops at the first day whose processing
  raises.
\<close>

fun days_back :: "date \<Rightarrow> nat \<Rightarrow> date list" where
  "days_back dt 0 = []"
| "days_back dt (Suc n) =
     dt # (case minus_one_day dt of Inl err \<Rightarrow> [] | Inr dt1 \<Rightarrow> days_back dt1 n)"

fun run_until_failure ::
  "(document \<Rightarrow> error + dataframe) \<Rightarrow> env \<Rightarrow> flags \<Rightarrow> string list \<Rightarrow> world \<Rightarrow> (error + unit) \<times> world" where
  "run_until_failure parse e fl [] w = (Inr (), w)"
| "run_until_failure parse e fl (d # ds) w =
     (case process_day parse e d fl w of
        (Inl err, w1) \<Rightarrow> (Inl err, w1)
      | (Inr u, w1) \<Rightarrow> run_until_failure parse e fl ds w1)"

text \<open>
  The \<open>VDLive\<close> elements of a tree in the order of their end tags, each as it stands when
  its end tag is read: a \<open>VDLive\<close> element inside it has been cleared by then. These are the
  elements both loops work on.
\<close>

definition seen_body :: "element \<Rightarrow> element list \<Rightarrow> element list \<times> element" where
  "seen_body e log = (if etag e = NS @ ''VDLive'' then (log @ [e], clear e) else (log, e))"

definition seen :: "element \<Rightarrow> element list" where
  "seen root = fst (iterparse_end seen_body root [])"

text \<open>
  The device identifier of a \<open>VDLive\<close> element and the key of a \<open>Lane\<close> element, as the loops
  read them.
\<close>

definition vdid_of :: "element \<Rightarrow> string" where
  "vdid_of e = findtext (NS @ ''VDID'') [] e"

definition lane_key :: "element \<Rightarrow> string" where
  "lane_key lane = ''L'' @ findtext (NS @ ''LaneID'') [] lane"

text \<open>
  A field of the Lane Record under a lane key, in the lanes of one device and in the
  collected devices: \<open>lanes[key][k]\<close> and \<open>data[vdid][key][k]\<close>, or \<open>None\<close> where a key is missing.
\<close>

definition lane_field :: "lanes \<Rightarrow> string \<Rightarrow> string \<Rightarrow> string option" where
  "lane_field lns key k = (case getitem lns key of None \<Rightarrow> None | Some rec \<Rightarrow> getitem rec k)"

definition device_field :: "devices \<Rightarrow> string \<Rightarrow> string \<Rightarrow> string \<Rightarrow> string option" where
  "device_field data vdid key k =
     (case getitem data vdid of None \<Rightarrow> None | Some lns \<Rightarrow> lane_field lns key k)"

text \<open>The keys of a dict are distinct, at each of the three levels of the collected devices.\<close>

definition lanes_distinct :: "lanes \<Rightarrow> bool" where
  "lanes_distinct lns = (distinct (keys lns) \<and> (\<forall>(k, rec) \<in> set lns. distinct (keys rec)))"

definition devices_distinct :: "devices \<Rightarrow> bool" where
  "devices_distinct data = (distinct (keys data) \<and> (\<forall>(v, lns) \<in> set data. lanes_distinct lns))"
section \<open>Concrete inputs\<close>

text \<open>
  A document with two devices: \<open>V1\<close> with one lane and two vehicle classifications, and a
  second \<open>VDLive\<close> element whose \<open>VDID\<close> is empty.
\<close>

definition leaf :: "string \<Rightarrow> string \<Rightarrow> xnode" where
  "leaf t s = XElem (NS @ t) [XText s]"

definition vehicle :: "string \<Rightarrow> string \<Rightarrow> string \<Rightarrow> xnode" where
  "vehicle vt vol sp =
     XElem (NS @ ''Vehicle'') [leaf ''VehicleType'' vt, leaf ''Volume'' vol, leaf ''Speed'' sp]"

definition doc_plain :: document where
  "doc_plain = WellFormed (NS @ ''VDLiveList'')
     [XElem (NS @ ''VDLive'')
        [leaf ''VDID'' ''V1'',
         XElem (NS @ ''Lane'')
           [leaf ''LaneID'' ''0'', leaf ''Speed'' ''60'', leaf ''Occupancy'' ''5'',
            vehicle ''S'' ''3'' ''61'', vehicle ''L'' ''1'' ''55'']],
      XElem (NS @ ''VDLive'') [XElem (NS @ ''VDID'') [], XElem (NS @ ''Lane'') [leaf ''LaneID'' ''1'']]]"

text \<open>A \<open>VDLive\<close> element, as the libraries build it, whose \<open>VDID\<close> child has no text.\<close>

definition elem_blank :: element where
  "elem_blank = Element (NS @ ''VDLive'') None
     [Element (NS @ ''VDID'') None [],
      Element (NS @ ''Lane'') None [Element (NS @ ''LaneID'') (Some ''1'') []]]"

text \<open>A document whose only device identifier has a comment in the middle.\<close>

definition doc_comment :: document where
  "doc_comment = WellFormed (NS @ ''VDLiveList'')
     [XElem (NS @ ''VDLive'') [XElem (NS @ ''VDID'') [XText ''V'', XComment ''c'', XText ''2'']]]"

text \<open>
  A document declared in Big5, which only \<open>lxml\<close> reads, and a document nested deeper than
  256 levels, which only \<open>ElementTree\<close> reads; each holds the device \<open>V1\<close>.
\<close>

definition doc_big5 :: document where
  "doc_big5 = Document
     (Inr (NS @ ''VDLiveList'', [XElem (NS @ ''VDLive'') [leaf ''VDID'' ''V1'']]))
     (Inl ValueError)"

fun nested :: "nat \<Rightarrow> xnode list" where
  "nested 0 = []"
| "nested (Suc n) = [XElem (NS @ ''Note'') (nested n)]"

definition doc_deep :: document where
  "doc_deep = Document
     (Inl ParseError)
     (Inr (NS @ ''VDLiveList'', [XElem (NS @ ''VDLive'') (leaf ''VDID'' ''V1'' # nested 255)]))"

text \<open>A \<open>Lane\<close> element with two vehicle classifications, \<open>S\<close> and \<open>L\<close>, as the libraries build it.\<close>

definition elem_leaf :: "string \<Rightarrow> string \<Rightarrow> element" where
  "elem_leaf t s = Element (NS @ t) (Some s) []"

definition veh_elem :: "string \<Rightarrow> string \<Rightarrow> string \<Rightarrow> element" where
  "veh_elem vt vol sp = Element (NS @ ''Vehicle'') None
     [elem_leaf ''VehicleType'' vt, elem_leaf ''Volume'' vol, elem_leaf ''Speed'' sp]"

definition lane_two :: element where
  "lane_two = Element (NS @ ''Lane'') None
     [elem_leaf ''LaneID'' ''0'', elem_leaf ''Speed'' ''60'', elem_leaf ''Occupancy'' ''5'',
      veh_elem ''S'' ''3'' ''61'', veh_elem ''L'' ''1'' ''55'']"

text \<open>The first \<open>VDLive\<close> element of \<open>doc_plain\<close>, as the libraries build it.\<close>

definition elem_device :: element where
  "elem_device = Element (NS @ ''VDLive'') None [elem_leaf ''VDID'' ''V1'', lane_two]"

text \<open>
  A document whose only \<open>VDLive\<close> element has an empty \<open>VDID\<close> and a lane with the two
  classifications \<open>S\<close> and \<open>L\<close>, and that element as the libraries build it.
\<close>

definition doc_blank_lane :: document where
  "doc_blank_lane = WellFormed (NS @ ''VDLiveList'')
     [XElem (NS @ ''VDLive'')
        [XElem (NS @ ''VDID'') [],
         XElem (NS @ ''Lane'')
           [leaf ''LaneID'' ''0'', leaf ''Speed'' ''60'', leaf ''Occupancy'' ''5'',
            vehicle ''S'' ''3'' ''61'', vehicle ''L'' ''1'' ''55'']]]"

definition elem_blank_lane :: element where
  "elem_blank_lane = Element (NS @ ''VDLive'') None [Element (NS @ ''VDID'') None [], lane_two]"



text \<open>
  The default configuration with an archive that cannot be reached, and with one that
  answers every URL with a valid artifact of 2048 bytes.
\<close>

definition env_offline :: env where
  "env_offline = \<lparr>BASE_DIR = ''/data'', MIN_FILE_SIZE = 1024, net = (\<lambda>u. NoResponse),
                   as_completed = (\<lambda>ps. ps)\<rparr>"

definition env_online :: env where
  "env_online = \<lparr>BASE_DIR = ''/data'', MIN_FILE_SIZE = 1024, net = (\<lambda>u. Body 2048 (Some doc_plain)),
                  as_completed = (\<lambda>ps. ps)\<rparr>"

definition world_empty :: world where
  "world_empty = \<lparr>fs = [], requests = []\<rparr>"

text \<open>A world where an interrupted run left ten bytes of the first artifact of the day.\<close>

definition world_stub :: world where
  "world_stub = \<lparr>fs = [(''/data/20240101/compressed/VDLive_0000.xml.gz'', Gz 10 None)],
                  requests = []\<rparr>"

text \<open>A Combined Table with three rows of device \<open>A\<close> and one of device \<open>B\<close>.\<close>

definition tab_ab :: dataframe where
  "tab_ab = \<lparr>columns = [''VDID'', ''L1_Speed'', ''file_name''],
            rows = [[Str ''A'', Str ''60'', Str ''VDLive_0000.csv''],
                    [Str ''B'', Str ''50'', Str ''VDLive_0000.csv''],
                    [Str ''A'', Str ''61'', Str ''VDLive_0001.csv''],
                    [Str ''A'', Str ''62'', Str ''VDLive_0002.csv'']]\<rparr>"

text \<open>A Combined Table with a row whose \<open>VDID\<close> was read as a missing value.\<close>

definition tab_nan :: dataframe where
  "tab_nan = \<lparr>columns = [''VDID'', ''L1_Speed'', ''file_name''],
             rows = [[Str ''A'', Str ''60'', Str ''VDLive_0000.csv''],
                     [NaN, Str ''70'', Str ''VDLive_0000.csv'']]\<rparr>"

text \<open>The default flags of \<open>process_day\<close>.\<close>

definition flags_default :: flags where
  "flags_default = \<lparr>keep_gz = False, keep_xml = False, keep_csv = True, zip_and_delete = True\<rparr>"

text \<open>
  A day folder whose decompressed directory holds a file that is not well-formed and a good
  document.
\<close>

definition world_bad_xml :: world where
  "world_bad_xml =
     \<lparr>fs = [(''/data/20240101/decompressed/VDLive_0000.xml'', Xml Malformed),
            (''/data/20240101/decompressed/VDLive_0001.xml'', Xml doc_plain)],
      requests = []\<rparr>"

text \<open>A Combined Table with a device identifier that has a slash in it.\<close>

definition tab_slash :: dataframe where
  "tab_slash = \<lparr>columns = [''VDID'', ''L1_Speed'', ''file_name''],
               rows = [[Str ''a/b'', Str ''60'', Str ''VDLive_0000.csv'']]\<rparr>"

section \<open>Properties of the Document Transformer\<close>

lemma getitem_setitem: "getitem (setitem k v d) k' = (if k' = k then Some v else getitem d k')"
  by (induction d) (auto simp: getitem_def)

lemma keys_setitem: "set (keys (setitem k v d)) = insert k (set (keys d))"
  by (induction d) (auto simp: keys_def)

lemma set_setitem: "set (setitem k v d) \<subseteq> insert (k, v) (set d)"
  by (induction d) auto

lemma getitem_dict_update:
  "getitem (dict_update d e) k = (case map_of (rev e) k of None \<Rightarrow> getitem d k | Some v \<Rightarrow> Some v)"
  unfolding dict_update_def
proof (induction e arbitrary: d)
  case Nil
  then show ?case by simp
next
  case (Cons p e)
  obtain a b where p: "p = (a, b)" by (cases p)
  show ?case
    by (simp add: Cons.IH p getitem_setitem map_add_def split: option.splits)
qed

lemma keys_dict_update: "set (keys (dict_update d e)) = set (keys d) \<union> set (keys e)"
  unfolding dict_update_def
proof (induction e arbitrary: d)
  case Nil
  then show ?case by (simp add: keys_def)
next
  case (Cons p e)
  obtain a b where p: "p = (a, b)" by (cases p)
  have "set (keys (p # e)) = insert a (set (keys e))" by (simp add: keys_def p)
  then show ?case 
    by (simp add: Cons.IH p keys_setitem)
qed


lemma set_add_new: "set (add_new acc xs) = set acc \<union> set xs"
  by (induction xs arbitrary: acc) auto

lemma iterparse_invariant_aux:
  "(\<forall>e s. P s \<longrightarrow> P (fst (body e s))) \<Longrightarrow> P s \<Longrightarrow> P (fst (iterparse_end body e s))"
  "(\<forall>e s. P s \<longrightarrow> P (fst (body e s))) \<Longrightarrow> P s \<Longrightarrow> P (fst (iterparse_ends body es s))"
proof (induction body e s and body es s rule: iterparse_end_iterparse_ends.induct)
  case (1 body t x cs s)
  obtain s1 cs1 where r: "iterparse_ends body cs s = (s1, cs1)" by (cases "iterparse_ends body cs s")
  have "P s1" using 1 r by simp
  then show ?case using 1(2) r by simp
next
  case (2 body s)
  then show ?case by simp
next
  case (3 body c cs s)
  obtain s1 c1 where r1: "iterparse_end body c s = (s1, c1)" by (cases "iterparse_end body c s")
  obtain s2 cs2 where r2: "iterparse_ends body cs s1 = (s2, cs2)" by (cases "iterparse_ends body cs s1")
  have "P s1" using 3 r1 by simp
  then have "P s2" using 3 r1 r2 by simp
  then show ?case using r1 r2 by simp
qed

lemma iterparse_invariant:
  assumes "\<And>e s. P s \<Longrightarrow> P (fst (body e s))" and "P s"
  shows "P (fst (iterparse_end body e s))"
  using iterparse_invariant_aux(1)[of P body s e] assms by blast

lemma lane_keys_ok_add_lane: "lane_keys_ok lns \<Longrightarrow> lane_keys_ok (add_lane lane lns)"
  by (simp add: lane_keys_ok_def add_lane_def Let_def keys_setitem)

lemma lane_keys_ok_fold: "lane_keys_ok lns \<Longrightarrow> lane_keys_ok (fold add_lane ls lns)"
  by (induction ls arbitrary: lns) (simp_all add: lane_keys_ok_add_lane)

lemma getitem_in_set: "getitem d k = Some v \<Longrightarrow> (k, v) \<in> set d"
  by (simp add: getitem_def map_of_SomeD)

lemma devices_ok_add_device:
  assumes "devices_ok data" and "vdid \<noteq> []"
  shows "devices_ok (add_device vdid e data)"
proof -
  define lns0 where "lns0 = (case getitem data vdid of None \<Rightarrow> [] | Some l \<Rightarrow> l)"
  have "lane_keys_ok lns0"
  proof (cases "getitem data vdid")
    case None
    then show ?thesis by (simp add: lns0_def lane_keys_ok_def keys_def)
  next
    case (Some l)
    then have "(vdid, l) \<in> set data" by (rule getitem_in_set)
    then show ?thesis using assms(1) Some by (auto simp: lns0_def devices_ok_def)
  qed
  then have ok: "lane_keys_ok (fold add_lane (findall_desc (NS @ ''Lane'') e) lns0)"
    by (rule lane_keys_ok_fold)
  have "add_device vdid e data = setitem vdid (fold add_lane (findall_desc (NS @ ''Lane'') e) lns0) data"
    by (simp add: add_device_def lns0_def)
  then show ?thesis
    using assms ok set_setitem[of vdid "fold add_lane (findall_desc (NS @ ''Lane'') e) lns0" data]
    by (auto simp: devices_ok_def)
qed

lemma devices_ok_lxml_body: "devices_ok data \<Longrightarrow> devices_ok (fst (lxml_body e data))"
  by (auto simp: lxml_body_def Let_def devices_ok_add_device split: option.splits)

lemma devices_ok_et_body: "devices_ok data \<Longrightarrow> devices_ok (fst (et_body e data))"
  by (auto simp: et_body_def Let_def devices_ok_add_device)

lemma devices_ok_lxml: "devices_ok (fst (iterparse_tag t lxml_body e []))"
  unfolding iterparse_tag_def
proof (rule iterparse_invariant)
  show "devices_ok []" by (simp add: devices_ok_def)
next
  fix e s
  assume "devices_ok s"
  then show "devices_ok (fst (if etag e = t then lxml_body e s else (s, e)))"
    by (simp add: devices_ok_lxml_body)
qed

lemma devices_ok_et: "devices_ok (fst (iterparse_end et_body e []))"
proof (rule iterparse_invariant)
  show "devices_ok []" by (simp add: devices_ok_def)
next
  fix e s
  assume "devices_ok s"
  then show "devices_ok (fst (et_body e s))"
    by (rule devices_ok_et_body)
qed

lemma map_of_rev_None: "map_of (rev e) k = None \<longleftrightarrow> k \<notin> set (keys e)"
  by (simp add: keys_def map_of_eq_None_iff)

lemma keys_flatten_lane: "set (keys (flatten_lane lk kv)) = (\<lambda>k. lk @ ''_'' @ k) ` set (keys kv)"
proof -
  have "set (keys (flatten_lane lk kv)) = set (keys (map (\<lambda>(k, v). (lk @ ''_'' @ k, v)) kv))"
    by (simp add: flatten_lane_def dict_of_def keys_dict_update) (simp add: keys_def)
  also have "\<dots> = (\<lambda>k. lk @ ''_'' @ k) ` set (keys kv)"
    by (force simp: keys_def)
  finally show ?thesis .
qed

lemma getitem_fold_flatten:
  "lane_keys_ok lns \<Longrightarrow> getitem row ''VDID'' = Some vdid \<Longrightarrow>
   getitem (fold (\<lambda>(lane_id, kv) row. dict_update row (flatten_lane lane_id kv)) lns row) ''VDID'' = Some vdid"
proof (induction lns arbitrary: row)
  case Nil
  then show ?case by simp
next
  case (Cons p lns)
  obtain lk kv where p: "p = (lk, kv)" by (cases p)
  from Cons.prems(1) obtain x where lk: "lk = CHR ''L'' # x"
    by (auto simp: lane_keys_ok_def keys_def p)
  have "''VDID'' \<notin> set (keys (flatten_lane lk kv))"
    by (auto simp: keys_flatten_lane lk)
  then have "getitem (dict_update row (flatten_lane lk kv)) ''VDID'' = Some vdid"
    using Cons.prems(2) by (simp add: getitem_dict_update map_of_rev_None[THEN iffD2])
  moreover have "lane_keys_ok lns" using Cons.prems(1) by (simp add: lane_keys_ok_def keys_def)
  ultimately show ?case using Cons.IH by (simp add: p)
qed

lemma getitem_flatten_device:
  "lane_keys_ok lns \<Longrightarrow> getitem (flatten_device vdid lns) ''VDID'' = Some vdid"
  unfolding flatten_device_def by (rule getitem_fold_flatten) (simp_all add: getitem_def)

lemma flatten_rows_vdid:
  assumes "devices_ok data" and "d \<in> set (flatten_rows data)"
  shows "\<exists>v. getitem d ''VDID'' = Some v \<and> v \<noteq> []"
  using assms by (auto simp: flatten_rows_def devices_ok_def getitem_flatten_device)

lemma getitem_keys: "getitem d k = Some v \<Longrightarrow> k \<in> set (keys d)"
  by (auto simp: keys_def dest!: getitem_in_set intro: rev_image_eqI)

lemma columns_DataFrame: "set (columns (DataFrame ds)) = (\<Union>d \<in> set ds. set (keys d))"
  by (simp add: DataFrame_def Let_def set_add_new)

lemma records_DataFrame:
  assumes "r \<in> set (records (DataFrame ds))"
  shows "\<exists>d \<in> set ds. \<forall>c. getitem r c =
           (if c \<in> set (columns (DataFrame ds))
            then Some (case getitem d c of None \<Rightarrow> NaN | Some v \<Rightarrow> Str v) else None)"
proof -
  let ?cols = "add_new [] (concat (map keys ds))"
  from assms obtain d where d: "d \<in> set ds"
    and r: "r = zip ?cols (map (\<lambda>c. case getitem d c of None \<Rightarrow> NaN | Some v \<Rightarrow> Str v) ?cols)"
    by (auto simp: records_def DataFrame_def Let_def)
  have "\<forall>c. getitem r c = (if c \<in> set ?cols
            then Some (case getitem d c of None \<Rightarrow> NaN | Some v \<Rightarrow> Str v) else None)"
    unfolding r getitem_def by (simp add: map_of_zip_map)
  then show ?thesis using d by (auto simp: DataFrame_def Let_def)
qed

lemma DataFrame_vdid:
  assumes "\<forall>d \<in> set ds. \<exists>v. getitem d ''VDID'' = Some v \<and> v \<noteq> []"
    and "r \<in> set (records (DataFrame ds))"
  shows "\<exists>v. getitem r ''VDID'' = Some (Str v) \<and> v \<noteq> []"
proof -
  from records_DataFrame[OF assms(2)] obtain d where d: "d \<in> set ds"
    and r: "\<forall>c. getitem r c = (if c \<in> set (columns (DataFrame ds))
            then Some (case getitem d c of None \<Rightarrow> NaN | Some v \<Rightarrow> Str v) else None)"
    by blast
  from assms(1) d obtain v where v: "getitem d ''VDID'' = Some v" "v \<noteq> []" by blast
  then have "''VDID'' \<in> set (columns (DataFrame ds))"
    using d getitem_keys by (fastforce simp: columns_DataFrame)
  then show ?thesis using r v by simp
qed

lemma findtext_empty_iff:
  "findtext t [] e = [] \<longleftrightarrow>
     (case find_child t e of None \<Rightarrow> Some [] | Some c \<Rightarrow> etext c) \<in> {None, Some []}"
  by (auto simp: findtext_def split: option.splits)

lemma lxml_text_eq: "list_all comment_free ns \<Longrightarrow> lxml_text ns = et_text ns"
  by (induction ns rule: et_text.induct) auto

lemma lxml_build_eq: "comment_free n \<Longrightarrow> lxml_build n = et_build n"
proof (induction n)
  case (XElem t ns)
  then have m: "map lxml_build ns = map et_build ns"
    by (simp add: list_all_iff)
  show ?case using XElem.prems by (simp add: lxml_text_eq m)
qed simp_all

lemma lxml_root_eq: "list_all comment_free ns \<Longrightarrow> lxml_root t ns = et_root t ns"
proof -
  assume a: "list_all comment_free ns"
  then have m: "map lxml_build ns = map et_build ns"
    by (simp add: list_all_iff lxml_build_eq)
  show ?thesis using a by (simp add: lxml_root_def et_root_def lxml_text_eq m)
qed

lemma tag_filter_body:
  "(\<lambda>e s. if etag e = NS @ ''VDLive'' then lxml_body e s else (s, e)) = et_body"
  by (intro ext) (auto simp: lxml_body_def et_body_def findtext_def Let_def split: option.splits)

lemma iterparse_tag_lxml: "iterparse_tag (NS @ ''VDLive'') lxml_body = iterparse_end et_body"
  by (simp add: iterparse_tag_def tag_filter_body)


lemma volume_neq_vehicle_speed: "a @ ''_Volume'' \<noteq> b @ ''_Vehicle_Speed''"
proof
  assume "a @ ''_Volume'' = b @ ''_Vehicle_Speed''"
  then have "rev (a @ ''_Volume'') = rev (b @ ''_Vehicle_Speed'')" by (rule arg_cong)
  then show False by simp
qed

lemma class_key_neq_scalar:
  "a @ ''_Volume'' \<noteq> ''Speed''" "a @ ''_Volume'' \<noteq> ''Occupancy''"
  "a @ ''_Vehicle_Speed'' \<noteq> ''Speed''" "a @ ''_Vehicle_Speed'' \<noteq> ''Occupancy''"
proof -
  have r: "\<And>x y :: string. rev x \<noteq> rev y \<Longrightarrow> x \<noteq> y" by auto
  show "a @ ''_Volume'' \<noteq> ''Speed''" by (rule r) simp
  show "a @ ''_Volume'' \<noteq> ''Occupancy''" by (rule r) simp
  show "a @ ''_Vehicle_Speed'' \<noteq> ''Occupancy''" by (rule r) simp
  have "length (a @ ''_Vehicle_Speed'') \<noteq> length ''Speed''" by simp
  then show "a @ ''_Vehicle_Speed'' \<noteq> ''Speed''" by metis
qed

lemma getitem_add_vehicle_other:
  "k \<noteq> vt_of w @ ''_Volume'' \<Longrightarrow> k \<noteq> vt_of w @ ''_Vehicle_Speed'' \<Longrightarrow>
   getitem (add_vehicle w r) k = getitem r k"
  by (simp add: add_vehicle_def vt_of_def Let_def getitem_setitem)

lemma getitem_add_vehicle_self:
  "vt_of w \<noteq> [] \<Longrightarrow>
   getitem (add_vehicle w r) (vt_of w @ ''_Volume'') = Some (findtext (NS @ ''Volume'') [] w) \<and>
   getitem (add_vehicle w r) (vt_of w @ ''_Vehicle_Speed'') = Some (findtext (NS @ ''Speed'') [] w)"
  by (simp add: add_vehicle_def vt_of_def Let_def getitem_setitem volume_neq_vehicle_speed)

lemma keys_add_vehicle:
  "set (keys (add_vehicle w r)) =
     set (keys r) \<union> (if vt_of w = [] then {} else {vt_of w @ ''_Volume'', vt_of w @ ''_Vehicle_Speed''})"
  by (auto simp: add_vehicle_def vt_of_def Let_def keys_setitem)

lemma keys_fold_add_vehicle:
  "set (keys (fold add_vehicle vehs r)) =
     set (keys r) \<union> (\<Union>v \<in> {v \<in> set vehs. vt_of v \<noteq> []}. {vt_of v @ ''_Volume'', vt_of v @ ''_Vehicle_Speed''})"
  by (induction vehs arbitrary: r) (auto simp: keys_add_vehicle split: if_splits)

lemma getitem_fold_add_vehicle_scalar:
  "k = ''Speed'' \<or> k = ''Occupancy'' \<Longrightarrow> getitem (fold add_vehicle vehs r) k = getitem r k"
proof (induction vehs arbitrary: r)
  case Nil
  then show ?case by simp
next
  case (Cons w vehs)
  have "getitem (add_vehicle w r) k = getitem r k"
    using Cons.prems class_key_neq_scalar[of "vt_of w"]
    by (intro getitem_add_vehicle_other) auto
  then show ?case using Cons by simp
qed

lemma getitem_fold_add_vehicle:
  assumes "distinct (filter (\<lambda>s. s \<noteq> []) (map vt_of vehs))" and "v \<in> set vehs" and "vt_of v \<noteq> []"
  shows "getitem (fold add_vehicle vehs r) (vt_of v @ ''_Volume'') = Some (findtext (NS @ ''Volume'') [] v) \<and>
         getitem (fold add_vehicle vehs r) (vt_of v @ ''_Vehicle_Speed'') = Some (findtext (NS @ ''Speed'') [] v)"
  using assms
proof (induction vehs rule: rev_induct)
  case Nil
  then show ?case by simp
next
  case (snoc w vehs)
  show ?case
  proof (cases "v \<in> set vehs")
    case True
    have d: "distinct (filter (\<lambda>s. s \<noteq> []) (map vt_of vehs))" using snoc.prems(1) by simp
    have ne: "vt_of w \<noteq> vt_of v"
    proof
      assume e: "vt_of w = vt_of v"
      then have "vt_of w \<in> set (filter (\<lambda>s. s \<noteq> []) (map vt_of vehs))"
        using True snoc.prems(3) by auto
      then show False using snoc.prems(1) snoc.prems(3) e by simp
    qed
    have ih: "getitem (fold add_vehicle vehs r) (vt_of v @ ''_Volume'') = Some (findtext (NS @ ''Volume'') [] v) \<and>
         getitem (fold add_vehicle vehs r) (vt_of v @ ''_Vehicle_Speed'') = Some (findtext (NS @ ''Speed'') [] v)"
      using snoc.IH d True snoc.prems(3) by blast
    have k1: "vt_of v @ ''_Volume'' \<noteq> vt_of w @ ''_Volume''" using ne by simp
    have k2: "vt_of v @ ''_Vehicle_Speed'' \<noteq> vt_of w @ ''_Vehicle_Speed''" using ne by simp
    have k3: "vt_of v @ ''_Volume'' \<noteq> vt_of w @ ''_Vehicle_Speed''" by (rule volume_neq_vehicle_speed)
    have k4: "vt_of v @ ''_Vehicle_Speed'' \<noteq> vt_of w @ ''_Volume''"
      using volume_neq_vehicle_speed[of "vt_of w" "vt_of v"] by (rule not_sym)
    show ?thesis using ih
      by (simp add: getitem_add_vehicle_other[OF k1 k3] getitem_add_vehicle_other[OF k4 k2])
  next
    case False
    then have "v = w" using snoc.prems(2) by simp
    then show ?thesis using snoc.prems(3) by (simp add: getitem_add_vehicle_self)
  qed
qed

lemma keys_fold_flatten:
  "set (keys (fold (\<lambda>(lane_id, kv) row. dict_update row (flatten_lane lane_id kv)) lns row)) =
     set (keys row) \<union> (\<Union>(lk, kv) \<in> set lns. (\<lambda>k. lk @ ''_'' @ k) ` set (keys kv))"
proof (induction lns arbitrary: row)
  case Nil
  then show ?case by simp
next
  case (Cons p lns)
  obtain lk kv where p: "p = (lk, kv)" by (cases p)
  show ?case by (simp add: p Cons.IH keys_dict_update keys_flatten_lane Un_assoc)
qed

lemma keys_flatten_device:
  "set (keys (flatten_device vdid lns)) =
     {''VDID''} \<union> (\<Union>(lk, kv) \<in> set lns. (\<lambda>k. lk @ ''_'' @ k) ` set (keys kv))"
  by (simp add: flatten_device_def keys_fold_flatten) (simp add: keys_def)

lemma flatten_device_has_column:
  assumes "getitem lns lk = Some kv" and "getitem kv k = Some x"
  shows "lk @ ''_'' @ k \<in> set (keys (flatten_device vdid lns))"
proof -
  have "(lk, kv) \<in> set lns" using assms(1) by (rule getitem_in_set)
  moreover have "k \<in> set (keys kv)" using assms(2) by (rule getitem_keys)
  ultimately show ?thesis unfolding keys_flatten_device by blast
qed

section \<open>Properties of the table operations\<close>










lemma set_group_keys:
  "set (group_keys c df) = {s. \<exists>r \<in> set (rows df). cell_of df r c = Str s}"
  by (auto simp: group_keys_def split: cell.splits)

lemma distinct_group_keys: "distinct (group_keys c df)"
  by (simp add: group_keys_def)

lemma mset_filter_disjoint:
  "(\<And>x. \<not> (P x \<and> Q x)) \<Longrightarrow>
   mset (filter P xs) + mset (filter Q xs) = mset (filter (\<lambda>x. P x \<or> Q x) xs)"
  by (induction xs) auto

lemma mset_concat_filter_keys:
  "distinct ks \<Longrightarrow>
   mset (concat (map (\<lambda>k. filter (\<lambda>r. f r = k) xs) ks)) = mset (filter (\<lambda>r. f r \<in> set ks) xs)"
proof (induction ks)
  case Nil
  then show ?case by simp
next
  case (Cons k ks)
  have d: "\<And>x. \<not> (f x = k \<and> f x \<in> set ks)" using Cons.prems by auto
  have "mset (concat (map (\<lambda>k. filter (\<lambda>r. f r = k) xs) (k # ks)))
      = mset (filter (\<lambda>r. f r = k) xs) + mset (filter (\<lambda>r. f r \<in> set ks) xs)"
    using Cons by simp
  also have "\<dots> = mset (filter (\<lambda>r. f r = k \<or> f r \<in> set ks) xs)"
    by (rule mset_filter_disjoint) (rule d)
  finally show ?case by (simp cong: filter_cong)
qed

lemma mset_groups:
  "mset (concat (map (\<lambda>k. filter (\<lambda>r. cell_of df r c = Str k) (rows df)) (group_keys c df)))
   = mset (filter (\<lambda>r. cell_of df r c \<noteq> NaN) (rows df))"
proof -
  have d: "distinct (map Str (group_keys c df))"
    by (simp add: distinct_map distinct_group_keys inj_on_def)
  have "concat (map (\<lambda>k. filter (\<lambda>r. cell_of df r c = Str k) (rows df)) (group_keys c df))
      = concat (map (\<lambda>x. filter (\<lambda>r. cell_of df r c = x) (rows df)) (map Str (group_keys c df)))"
    by (simp add: o_def)
  also have "mset \<dots> = mset (filter (\<lambda>r. cell_of df r c \<in> set (map Str (group_keys c df))) (rows df))"
    by (rule mset_concat_filter_keys [OF d])
  also have "filter (\<lambda>r. cell_of df r c \<in> set (map Str (group_keys c df))) (rows df)
      = filter (\<lambda>r. cell_of df r c \<noteq> NaN) (rows df)"
  proof (rule filter_cong [OF refl])
    fix r assume "r \<in> set (rows df)"
    then show "(cell_of df r c \<in> set (map Str (group_keys c df))) = (cell_of df r c \<noteq> NaN)"
      by (cases "cell_of df r c") (auto simp: set_group_keys)
  qed
  finally show ?thesis .
qed

lemma map_of_rev_distinct: "distinct (map fst xs) \<Longrightarrow> map_of (rev xs) = map_of xs"
proof (induction xs)
  case Nil
  then show ?case by simp
next
  case (Cons p xs)
  obtain a b where p: "p = (a, b)" by (cases p)
  have ih: "map_of (rev xs) = map_of xs" using Cons by simp
  have n: "map_of xs a = None" using Cons.prems by (simp add: p map_of_eq_None_iff)
  show ?case
  proof
    fix x
    show "map_of (rev (p # xs)) x = map_of (p # xs) x"
      using n by (cases "map_of xs x") (auto simp: p ih map_add_def)
  qed
qed

lemma write_groups_usable:
  "\<forall>(k, g) \<in> set gs. usable_name (k @ ''.csv'') \<Longrightarrow>
   write_groups out gs w
   = (Inr (), w\<lparr>fs := dict_update (fs w) (map (\<lambda>(k, g). (joinpath out (k @ ''.csv''), Csv g)) gs)\<rparr>)"
proof (induction gs arbitrary: w)
  case Nil
  then show ?case by (simp add: dict_update_def)
next
  case (Cons p gs)
  obtain k g where p: "p = (k, g)" by (cases p)
  have u: "usable_name (k @ ''.csv'')" using Cons.prems by (simp add: p)
  then have n: "CHR 0x00 \<notin> set (k @ ''.csv'')" by (simp add: usable_name_def)
  have r: "\<forall>(k, g) \<in> set gs. usable_name (k @ ''.csv'')" using Cons.prems by simp
  show ?case
    using u n Cons.IH [OF r] by (simp add: p write_file_def dict_update_def)
qed

lemma written_group:
  assumes "distinct (map fst gs)" and "(k, g) \<in> set gs"
  shows "getitem (dict_update d (map (\<lambda>(k, g). (joinpath out (k @ ''.csv''), Csv g)) gs))
           (joinpath out (k @ ''.csv'')) = Some (Csv g)"
proof -
  let ?ps = "map (\<lambda>(k, g). (joinpath out (k @ ''.csv''), Csv g)) gs"
  have e: "map fst ?ps = map (\<lambda>k. joinpath out (k @ ''.csv'')) (map fst gs)"
    by (induction gs) auto
  have i: "inj_on (\<lambda>k. joinpath out (k @ ''.csv'')) (set (map fst gs))"
    by (rule inj_onI) (simp add: joinpath_def)
  have "distinct (map (\<lambda>k. joinpath out (k @ ''.csv'')) (map fst gs))"
    by (rule distinct_map [THEN iffD2]) (intro conjI assms(1) i)
  then have d: "distinct (map fst ?ps)" by (simp only: e)
  have "(joinpath out (k @ ''.csv''), Csv g) \<in> set ?ps" using assms(2) by force
  then have "map_of ?ps (joinpath out (k @ ''.csv'')) = Some (Csv g)"
    using d by simp
  then show ?thesis
    by (simp add: getitem_dict_update map_of_rev_distinct [OF d])
qed

lemma unwritten_path:
  assumes "\<forall>k \<in> set (map fst gs). p \<noteq> joinpath out (k @ ''.csv'')"
  shows "getitem (dict_update d (map (\<lambda>(k, g). (joinpath out (k @ ''.csv''), Csv g)) gs)) p
         = getitem d p"
proof -
  let ?ps = "map (\<lambda>(k, g). (joinpath out (k @ ''.csv''), Csv g)) gs"
  have "p \<notin> set (keys ?ps)" using assms by (auto simp: keys_def)
  then have "map_of (rev ?ps) p = None" by (simp add: map_of_rev_None)
  then show ?thesis by (simp add: getitem_dict_update)
qed

section \<open>Properties of the stages\<close>

lemma getitem_filter_key:
  "getitem (filter (\<lambda>(q, f). q \<noteq> p) d) k = (if k = p then None else getitem d k)"
  by (induction d) (auto simp: getitem_def)

lemma fs_download_one:
  "getitem (fs (snd (download_one e url dest w))) p =
     (if p \<noteq> dest \<or> exists_path dest w then getitem (fs w) p
      else (case net e url of
              Body n d \<Rightarrow> if int n < MIN_FILE_SIZE e then None else Some (Gz n d)
            | _ \<Rightarrow> None))"
  by (auto simp: download_one_def Let_def unlink_def write_file_def getitem_filter_key
        getitem_setitem exists_path_def split: response.splits)

lemma requests_download_one:
  "requests (snd (download_one e url dest w)) =
     requests w @ (if exists_path dest w then [] else [url])"
  by (auto simp: download_one_def Let_def unlink_def write_file_def split: response.splits)

lemma download_one_noop: "exists_path dest w \<Longrightarrow> snd (download_one e url dest w) = w"
  by (simp add: download_one_def)

lemma run_tasks_Cons:
  "run_tasks e ((url, dest) # ts) w = run_tasks e ts (snd (download_one e url dest w))"
  by (simp add: run_tasks_def)

lemma run_tasks_Nil: "run_tasks e [] w = w"
  by (simp add: run_tasks_def)

lemma kept_or_valid_refl: "kept_or_valid e w w"
  by (auto simp: kept_or_valid_def exists_path_def)

lemma kept_or_valid_step:
  assumes "kept_or_valid e w w1"
  shows "kept_or_valid e w (snd (download_one e url dest w1))"
  unfolding kept_or_valid_def
proof (intro allI conjI impI)
  fix p
  assume ex: "exists_path p w"
  then have k: "getitem (fs w1) p = getitem (fs w) p"
    using assms by (simp add: kept_or_valid_def)
  then have "exists_path p w1" using ex by (simp add: exists_path_def)
  then have "p \<noteq> dest \<or> exists_path dest w1" by auto
  then show "getitem (fs (snd (download_one e url dest w1))) p = getitem (fs w) p"
    using k by (simp add: fs_download_one)
next
  fix p
  assume nex: "\<not> exists_path p w"
  then have k: "getitem (fs w1) p = None \<or>
               (\<exists>n d. getitem (fs w1) p = Some (Gz n d) \<and> MIN_FILE_SIZE e \<le> int n)"
    using assms unfolding kept_or_valid_def by blast
  show "getitem (fs (snd (download_one e url dest w1))) p = None \<or>
        (\<exists>n d. getitem (fs (snd (download_one e url dest w1))) p = Some (Gz n d)
               \<and> MIN_FILE_SIZE e \<le> int n)"
  proof (cases "p \<noteq> dest \<or> exists_path dest w1")
    case True
    then have "getitem (fs (snd (download_one e url dest w1))) p = getitem (fs w1) p"
      by (simp add: fs_download_one)
    then show ?thesis using k by metis
  next
    case False
    then have e: "getitem (fs (snd (download_one e url dest w1))) p =
        (case net e url of
              Body n d \<Rightarrow> if int n < MIN_FILE_SIZE e then None else Some (Gz n d)
            | _ \<Rightarrow> None)"
      by (simp add: fs_download_one)
    show ?thesis unfolding e by (cases "net e url") auto
  qed
qed

lemma kept_or_valid_run:
  "kept_or_valid e w w1 \<Longrightarrow> kept_or_valid e w (run_tasks e ts w1)"
proof (induction ts arbitrary: w1)
  case Nil
  then show ?case by (simp add: run_tasks_Nil)
next
  case (Cons t ts)
  obtain url dest where t: "t = (url, dest)" by (cases t)
  show ?case unfolding t run_tasks_Cons
    by (rule Cons.IH) (rule kept_or_valid_step [OF Cons.prems])
qed

lemma run_tasks_all_exist:
  "\<forall>(u, d) \<in> set ts. exists_path d w \<Longrightarrow> run_tasks e ts w = w"
proof (induction ts)
  case Nil
  then show ?case by (simp add: run_tasks_Nil)
next
  case (Cons t ts)
  obtain url dest where t: "t = (url, dest)" by (cases t)
  have "exists_path dest w" using Cons.prems t by simp
  then show ?case using Cons by (simp add: t run_tasks_Cons download_one_noop)
qed

lemma requests_run_tasks_grow:
  "length (requests w) \<le> length (requests (run_tasks e ts w))"
proof (induction ts arbitrary: w)
  case Nil
  then show ?case by (simp add: run_tasks_Nil)
next
  case (Cons t ts)
  obtain url dest where t: "t = (url, dest)" by (cases t)
  have "length (requests w) \<le> length (requests (snd (download_one e url dest w)))"
    by (simp add: requests_download_one)
  also have "\<dots> \<le> length (requests (run_tasks e ts (snd (download_one e url dest w))))"
    by (rule Cons.IH)
  finally show ?case by (simp add: t run_tasks_Cons)
qed

lemma run_tasks_some_missing:
  "\<exists>(u, d) \<in> set ts. \<not> exists_path d w \<Longrightarrow>
   length (requests w) < length (requests (run_tasks e ts w))"
proof (induction ts)
  case Nil
  then show ?case by simp
next
  case (Cons t ts)
  obtain url dest where t: "t = (url, dest)" by (cases t)
  show ?case
  proof (cases "exists_path dest w")
    case True
    then have "\<exists>(u, d) \<in> set ts. \<not> exists_path d w" using Cons.prems t by auto
    then show ?thesis using Cons.IH True by (simp add: t run_tasks_Cons download_one_noop)
  next
    case False
    then have "length (requests w) < length (requests (snd (download_one e url dest w)))"
      by (simp add: requests_download_one)
    also have "\<dots> \<le> length (requests (run_tasks e ts (snd (download_one e url dest w))))"
      by (rule requests_run_tasks_grow)
    finally show ?thesis by (simp add: t run_tasks_Cons)
  qed
qed

lemma run_tasks_offline:
  assumes "\<forall>u. net e u = NoResponse"
  shows "run_tasks e ts \<lparr>fs = [], requests = rq\<rparr> = \<lparr>fs = [], requests = rq @ map fst ts\<rparr>"
proof (induction ts arbitrary: rq)
  case Nil
  then show ?case by (simp add: run_tasks_Nil)
next
  case (Cons t ts)
  obtain url dest where t: "t = (url, dest)" by (cases t)
  have "snd (download_one e url dest \<lparr>fs = [], requests = rq\<rparr>) = \<lparr>fs = [], requests = rq @ [url]\<rparr>"
    using assms by (simp add: download_one_def exists_path_def getitem_def unlink_def)
  then show ?case by (simp add: t run_tasks_Cons Cons.IH)
qed

lemma length_tasks: "length (tasks e date) = 1440"
  by (simp add: tasks_def length_concat o_def sum_list_triv)

lemma task_in_tasks: "h < 24 \<Longrightarrow> m < 60 \<Longrightarrow> task e date h m \<in> set (tasks e date)"
  by (simp add: tasks_def, intro bexI [of _ h] imageI) simp_all


lemma exists_after_download_one:
  "exists_path p w \<Longrightarrow> exists_path p (snd (download_one e url dest w))"
  unfolding exists_path_def fs_download_one by (auto simp: exists_path_def)

lemma exists_after_run_tasks:
  "exists_path p w \<Longrightarrow> exists_path p (run_tasks e ts w)"
proof (induction ts arbitrary: w)
  case Nil
  then show ?case by (simp add: run_tasks_Nil)
next
  case (Cons t ts)
  obtain url dest where t: "t = (url, dest)" by (cases t)
  show ?case unfolding t run_tasks_Cons
    by (rule Cons.IH) (rule exists_after_download_one [OF Cons.prems])
qed

lemma exists_dest_after_valid:
  assumes "net e url = Body n d" and "MIN_FILE_SIZE e \<le> int n"
  shows "exists_path dest (snd (download_one e url dest w))"
  using assms unfolding exists_path_def fs_download_one by (auto simp: exists_path_def)

lemma all_exist_after_valid_run:
  assumes "\<forall>u. \<exists>n d. net e u = Body n d \<and> MIN_FILE_SIZE e \<le> int n"
  shows "\<forall>(u, d) \<in> set ts. exists_path d (run_tasks e ts w)"
proof (induction ts arbitrary: w)
  case Nil
  then show ?case by simp
next
  case (Cons t ts)
  obtain url dest where t: "t = (url, dest)" by (cases t)
  obtain n d where r: "net e url = Body n d" "MIN_FILE_SIZE e \<le> int n" using assms by blast
  have "exists_path dest (snd (download_one e url dest w))"
    by (rule exists_dest_after_valid [OF r])
  then have "exists_path dest (run_tasks e ts (snd (download_one e url dest w)))"
    by (rule exists_after_run_tasks)
  then show ?case using Cons.IH [of "snd (download_one e url dest w)"]
    by (simp add: t run_tasks_Cons)
qed

lemma glob_empty_fs: "fs w = [] \<Longrightarrow> glob dir suf w = []"
  by (simp add: glob_def keys_def)

lemma split_by_vdid_no_tables:
  "glob csv_dir ''.csv'' w = [] \<Longrightarrow> split_by_vdid csv_dir w = (Inl ValueError, w)"
  by (simp add: split_by_vdid_def combine_def concat_frames_def)

lemma process_day_offline:
  assumes "\<forall>u. net e u = NoResponse" and "as_completed e [] = []"
  shows "process_day parse e date fl \<lparr>fs = [], requests = rq\<rparr>
       = (Inl ValueError, \<lparr>fs = [], requests = rq @ map fst (tasks e date)\<rparr>)"
proof -
  let ?w1 = "\<lparr>fs = [], requests = rq @ map fst (tasks e date)\<rparr>"
  let ?day = "joinpath (BASE_DIR e) date"
  have d: "download_day e date \<lparr>fs = [], requests = rq\<rparr> = (?day, ?w1)"
    by (simp add: download_day_def run_tasks_offline [OF assms(1)])
  have g: "\<And>dir suf. glob dir suf ?w1 = []" by (simp add: glob_empty_fs)
  have u: "decompress_day ?day ?w1 = (joinpath ?day ''decompressed'', ?w1)"
    by (simp add: decompress_day_def Let_def g)
  have x: "xml_to_csv parse e ?day ?w1 = (Inr (joinpath ?day ''csv''), ?w1)"
    by (simp add: xml_to_csv_def Let_def g assms(2))
  have s: "split_by_vdid (joinpath ?day ''csv'') ?w1 = (Inl ValueError, ?w1)"
    by (rule split_by_vdid_no_tables) (rule g)
  show ?thesis by (simp add: process_day_def d u x s)
qed

lemma url_of_task:
  "u \<in> set (map fst (tasks e date)) \<Longrightarrow> \<exists>h m. u = fst (task e date h m)"
  by (fastforce simp: tasks_def)

lemma other_day_not_requested:
  "''https://tisvcloud.freeway.gov.tw/history/motc20/VD/20240101/VDLive_0000.xml.gz''
     \<notin> set (map fst (tasks e ''20240102''))"
proof
  assume "''https://tisvcloud.freeway.gov.tw/history/motc20/VD/20240101/VDLive_0000.xml.gz''
     \<in> set (map fst (tasks e ''20240102''))"
  then obtain h m where
    "''https://tisvcloud.freeway.gov.tw/history/motc20/VD/20240101/VDLive_0000.xml.gz''
       = fst (task e ''20240102'' h m)"
    using url_of_task by blast
  then show False by (simp add: task_def)
qed

lemma batch_loop_refines:
  "length (days_back dt (Suc n)) = Suc n \<Longrightarrow>
   batch_loop parse e fl n dt w = run_until_failure parse e fl (map strftime (days_back dt n)) w"
proof (induction n arbitrary: dt w)
  case 0
  then show ?case by simp
next
  case (Suc n)
  from Suc.prems obtain dt1 where m: "minus_one_day dt = Inr dt1"
    by (cases "minus_one_day dt") auto
  have l: "length (days_back dt1 (Suc n)) = Suc n" using Suc.prems m by simp
  show ?case
  proof (cases "process_day parse e (strftime dt) fl w")
    case (Pair r w1)
    show ?thesis
    proof (cases r)
      case (Inl err)
      then show ?thesis using Pair m by simp
    next
      case (Inr u)
      then show ?thesis using Pair m Suc.IH [OF l, of w1] by simp
    qed
  qed
qed

lemma run_until_failure_append:
  "run_until_failure parse e fl ds w = (Inr (), wk) \<Longrightarrow>
   process_day parse e d fl wk = (Inl err, w') \<Longrightarrow>
   run_until_failure parse e fl (ds @ d # ds') w = (Inl err, w')"
proof (induction ds arbitrary: w)
  case Nil
  then show ?case by simp
next
  case (Cons a ds)
  show ?case
  proof (cases "process_day parse e a fl w")
    case (Pair r w1)
    show ?thesis
    proof (cases r)
      case (Inl x)
      then show ?thesis using Pair Cons.prems(1) by simp
    next
      case (Inr u)
      then have "run_until_failure parse e fl ds w1 = (Inr (), wk)"
        using Pair Cons.prems(1) by simp
      then show ?thesis using Cons.IH Cons.prems(2) Pair Inr by simp
    qed
  qed
qed

section \<open>From a document to the cells of its table\<close>

text \<open>
  The loop over the end events does to the collected devices what a fold of the loop body
  over the \<open>VDLive\<close> elements does, taken in the order of their end tags.
\<close>

lemma iterparse_sim_aux:
  "(\<forall>e s log. snd (b1 e s) = snd (b2 e log) \<and>
        (\<exists>xs. fst (b2 e log) = log @ xs \<and> fst (b1 e s) = fold step xs s)) \<Longrightarrow>
   (\<forall>log. snd (iterparse_end b1 e s) = snd (iterparse_end b2 e log) \<and>
        (\<exists>xs. fst (iterparse_end b2 e log) = log @ xs \<and> fst (iterparse_end b1 e s) = fold step xs s))"
  "(\<forall>e s log. snd (b1 e s) = snd (b2 e log) \<and>
        (\<exists>xs. fst (b2 e log) = log @ xs \<and> fst (b1 e s) = fold step xs s)) \<Longrightarrow>
   (\<forall>log. snd (iterparse_ends b1 es s) = snd (iterparse_ends b2 es log) \<and>
        (\<exists>xs. fst (iterparse_ends b2 es log) = log @ xs \<and> fst (iterparse_ends b1 es s) = fold step xs s))"
proof (induction b1 e s and b1 es s rule: iterparse_end_iterparse_ends.induct)
  case (1 body t x cs s)
  show ?case
  proof
    fix log
    obtain s1 cs1 where r1: "iterparse_ends body cs s = (s1, cs1)" by (cases "iterparse_ends body cs s")
    obtain l1 cs2 where r2: "iterparse_ends b2 cs log = (l1, cs2)" by (cases "iterparse_ends b2 cs log")
    from 1 have "snd (iterparse_ends body cs s) = snd (iterparse_ends b2 cs log) \<and>
        (\<exists>xs. fst (iterparse_ends b2 cs log) = log @ xs \<and> fst (iterparse_ends body cs s) = fold step xs s)"
      by blast
    then obtain xs where c: "cs1 = cs2" and l: "l1 = log @ xs" and s: "s1 = fold step xs s"
      using r1 r2 by auto
    from 1(2) have "snd (body (Element t x cs1) s1) = snd (b2 (Element t x cs1) l1) \<and>
        (\<exists>ys. fst (b2 (Element t x cs1) l1) = l1 @ ys \<and> fst (body (Element t x cs1) s1) = fold step ys s1)"
      by blast
    then obtain ys where e: "snd (body (Element t x cs1) s1) = snd (b2 (Element t x cs1) l1)"
      and l2: "fst (b2 (Element t x cs1) l1) = l1 @ ys"
      and s2: "fst (body (Element t x cs1) s1) = fold step ys s1" by blast
    have "fst (iterparse_end b2 (Element t x cs) log) = log @ (xs @ ys)"
      using r2 c l l2 by simp
    moreover have "fst (iterparse_end body (Element t x cs) s) = fold step (xs @ ys) s"
      using r1 s s2 by simp
    moreover have "snd (iterparse_end body (Element t x cs) s) = snd (iterparse_end b2 (Element t x cs) log)"
      using r1 r2 c e by simp
    ultimately show "snd (iterparse_end body (Element t x cs) s) = snd (iterparse_end b2 (Element t x cs) log) \<and>
        (\<exists>xs. fst (iterparse_end b2 (Element t x cs) log) = log @ xs \<and>
              fst (iterparse_end body (Element t x cs) s) = fold step xs s)"
      by blast
  qed
next
  case (2 body s)
  then show ?case by simp
next
  case (3 body c cs s)
  show ?case
  proof
    fix log
    obtain s1 c1 where r1: "iterparse_end body c s = (s1, c1)" by (cases "iterparse_end body c s")
    obtain l1 c2 where r2: "iterparse_end b2 c log = (l1, c2)" by (cases "iterparse_end b2 c log")
    obtain s2 cs1 where r3: "iterparse_ends body cs s1 = (s2, cs1)" by (cases "iterparse_ends body cs s1")
    obtain l2 cs2 where r4: "iterparse_ends b2 cs l1 = (l2, cs2)" by (cases "iterparse_ends b2 cs l1")
    from 3(1) 3(3) have "snd (iterparse_end body c s) = snd (iterparse_end b2 c log) \<and>
        (\<exists>xs. fst (iterparse_end b2 c log) = log @ xs \<and> fst (iterparse_end body c s) = fold step xs s)"
      by blast
    then obtain xs where c: "c1 = c2" and l: "l1 = log @ xs" and s: "s1 = fold step xs s"
      using r1 r2 by auto
    from 3(2) [OF r1 [symmetric] 3(3)] have "snd (iterparse_ends body cs s1) = snd (iterparse_ends b2 cs l1) \<and>
        (\<exists>ys. fst (iterparse_ends b2 cs l1) = l1 @ ys \<and> fst (iterparse_ends body cs s1) = fold step ys s1)"
      by blast
    then obtain ys where cc: "cs1 = cs2" and ll: "l2 = l1 @ ys" and ss: "s2 = fold step ys s1"
      using r3 r4 by auto
    have "fst (iterparse_ends b2 (c # cs) log) = log @ (xs @ ys)"
      using r2 r4 l ll by simp
    moreover have "fst (iterparse_ends body (c # cs) s) = fold step (xs @ ys) s"
      using r1 r3 s ss by simp
    moreover have "snd (iterparse_ends body (c # cs) s) = snd (iterparse_ends b2 (c # cs) log)"
      using r1 r2 r3 r4 c cc by simp
    ultimately show "snd (iterparse_ends body (c # cs) s) = snd (iterparse_ends b2 (c # cs) log) \<and>
        (\<exists>xs. fst (iterparse_ends b2 (c # cs) log) = log @ xs \<and>
              fst (iterparse_ends body (c # cs) s) = fold step xs s)"
      by blast
  qed
qed

lemma et_body_seen_body:
  "snd (et_body e s) = snd (seen_body e log) \<and>
     (\<exists>xs. fst (seen_body e log) = log @ xs \<and> fst (et_body e s) = fold (\<lambda>e d. fst (et_body e d)) xs s)"
proof (cases "etag e = NS @ ''VDLive''")
  case True
  have "snd (et_body e s) = clear e" using True by (simp add: et_body_def Let_def)
  moreover have "fst (seen_body e log) = log @ [e]" "snd (seen_body e log) = clear e"
    using True by (simp_all add: seen_body_def)
  ultimately show ?thesis by simp
next
  case False
  then show ?thesis by (simp add: et_body_def seen_body_def)
qed

lemma data_of_seen:
  "fst (iterparse_end et_body root []) = fold (\<lambda>e d. fst (et_body e d)) (seen root) []"
proof -
  have "\<forall>log. snd (iterparse_end et_body root []) = snd (iterparse_end seen_body root log) \<and>
        (\<exists>xs. fst (iterparse_end seen_body root log) = log @ xs \<and>
              fst (iterparse_end et_body root []) = fold (\<lambda>e d. fst (et_body e d)) xs [])"
    by (rule iterparse_sim_aux(1)) (use et_body_seen_body in blast)
  then have "\<exists>xs. fst (iterparse_end seen_body root []) = [] @ xs \<and>
              fst (iterparse_end et_body root []) = fold (\<lambda>e d. fst (et_body e d)) xs []"
    by blast
  then show ?thesis by (auto simp: seen_def)
qed

lemma seen_tags: "e \<in> set (seen root) \<Longrightarrow> etag e = NS @ ''VDLive''"
proof -
  have "\<forall>x \<in> set (fst (iterparse_end seen_body root [])). etag x = NS @ ''VDLive''"
    by (rule iterparse_invariant [where P = "\<lambda>log. \<forall>x \<in> set log. etag x = NS @ ''VDLive''"])
       (auto simp: seen_body_def)
  then show "e \<in> set (seen root) \<Longrightarrow> etag e = NS @ ''VDLive''" by (simp add: seen_def)
qed


lemma getitem_None_iff: "getitem d k = None \<longleftrightarrow> k \<notin> set (keys d)"
  by (simp add: getitem_def keys_def map_of_eq_None_iff)

lemma et_body_VDLive:
  "etag e = NS @ ''VDLive'' \<Longrightarrow>
   fst (et_body e d) = (if vdid_of e = [] then d else add_device (vdid_of e) e d)"
  by (simp add: et_body_def vdid_of_def Let_def)

lemma getitem_add_device:
  "getitem (add_device vdid e d) k =
     (if k = vdid
      then Some (fold add_lane (findall_desc (NS @ ''Lane'') e)
                   (case getitem d vdid of None \<Rightarrow> [] | Some l \<Rightarrow> l))
      else getitem d k)"
  by (simp add: add_device_def Let_def getitem_setitem)

lemma getitem_et_body_other: "vdid_of y \<noteq> k \<Longrightarrow> getitem (fst (et_body y d)) k = getitem d k"
  by (auto simp: et_body_def vdid_of_def Let_def getitem_add_device)

lemma getitem_add_lane:
  "getitem (add_lane lane lns) k =
     (if k = lane_key lane
      then Some (fold add_vehicle (findall_desc (NS @ ''Vehicle'') lane)
             (setitem ''Occupancy'' (findtext (NS @ ''Occupancy'') [] lane)
               (setitem ''Speed'' (findtext (NS @ ''Speed'') [] lane)
                 (case getitem lns (lane_key lane) of None \<Rightarrow> [] | Some r \<Rightarrow> r))))
      else getitem lns k)"
  by (simp add: add_lane_def lane_key_def Let_def getitem_setitem)

lemma keys_add_lane: "set (keys (add_lane lane lns)) = insert (lane_key lane) (set (keys lns))"
  by (simp add: add_lane_def lane_key_def Let_def keys_setitem)

lemma keys_fold_add_lane: "set (keys (fold add_lane ls lns)) = set (keys lns) \<union> lane_key ` set ls"
  by (induction ls arbitrary: lns) (auto simp: keys_add_lane)

subsection \<open>Distinct keys\<close>

lemma distinct_keys_setitem: "distinct (keys d) \<Longrightarrow> distinct (keys (setitem k v d))"
proof (induction d)
  case Nil
  show ?case by (simp add: keys_def)
next
  case (Cons p d)
  have "distinct (keys d)" using Cons.prems by (simp add: keys_def)
  then have ih: "distinct (keys (setitem k v d))" by (rule Cons.IH)
  have s: "set (keys (setitem k v d)) = insert k (set (keys d))" by (rule keys_setitem)
  show ?case using Cons.prems ih s by (auto simp: keys_def)
qed

lemma distinct_keys_add_vehicle: "distinct (keys r) \<Longrightarrow> distinct (keys (add_vehicle v r))"
  by (simp add: add_vehicle_def Let_def distinct_keys_setitem)

lemma distinct_keys_fold_add_vehicle: "distinct (keys r) \<Longrightarrow> distinct (keys (fold add_vehicle vs r))"
  by (induction vs arbitrary: r) (simp_all add: distinct_keys_add_vehicle)

lemma lanes_distinct_add_lane:
  assumes "lanes_distinct lns"
  shows "lanes_distinct (add_lane lane lns)"
proof -
  define rec0 where "rec0 = (case getitem lns (lane_key lane) of None \<Rightarrow> [] | Some r \<Rightarrow> r)"
  define rec3 where "rec3 = fold add_vehicle (findall_desc (NS @ ''Vehicle'') lane)
             (setitem ''Occupancy'' (findtext (NS @ ''Occupancy'') [] lane)
               (setitem ''Speed'' (findtext (NS @ ''Speed'') [] lane) rec0))"
  have al: "add_lane lane lns = setitem (lane_key lane) rec3 lns"
    by (simp add: add_lane_def lane_key_def Let_def rec3_def rec0_def)
  have "distinct (keys rec0)"
  proof (cases "getitem lns (lane_key lane)")
    case None
    then show ?thesis by (simp add: rec0_def keys_def)
  next
    case (Some r)
    then have "(lane_key lane, r) \<in> set lns" by (rule getitem_in_set)
    then show ?thesis using assms Some by (auto simp: rec0_def lanes_distinct_def)
  qed
  then have d3: "distinct (keys rec3)"
    unfolding rec3_def by (intro distinct_keys_fold_add_vehicle distinct_keys_setitem)
  have "distinct (keys (setitem (lane_key lane) rec3 lns))"
    using assms by (simp add: lanes_distinct_def distinct_keys_setitem)
  moreover have "\<forall>(k, rec) \<in> set (setitem (lane_key lane) rec3 lns). distinct (keys rec)"
    using assms d3 set_setitem [of "lane_key lane" rec3 lns] by (auto simp: lanes_distinct_def)
  ultimately show ?thesis unfolding al lanes_distinct_def by simp
qed

lemma lanes_distinct_fold: "lanes_distinct lns \<Longrightarrow> lanes_distinct (fold add_lane ls lns)"
  by (induction ls arbitrary: lns) (simp_all add: lanes_distinct_add_lane)

lemma devices_distinct_add_device:
  assumes "devices_distinct data"
  shows "devices_distinct (add_device vdid e data)"
proof -
  define lns0 where "lns0 = (case getitem data vdid of None \<Rightarrow> [] | Some l \<Rightarrow> l)"
  define lns1 where "lns1 = fold add_lane (findall_desc (NS @ ''Lane'') e) lns0"
  have ad: "add_device vdid e data = setitem vdid lns1 data"
    by (simp add: add_device_def lns0_def lns1_def)
  have "lanes_distinct lns0"
  proof (cases "getitem data vdid")
    case None
    then show ?thesis by (simp add: lns0_def lanes_distinct_def keys_def)
  next
    case (Some l)
    then have "(vdid, l) \<in> set data" by (rule getitem_in_set)
    then show ?thesis using assms Some by (auto simp: lns0_def devices_distinct_def)
  qed
  then have d1: "lanes_distinct lns1" unfolding lns1_def by (rule lanes_distinct_fold)
  have "distinct (keys (setitem vdid lns1 data))"
    using assms by (simp add: devices_distinct_def distinct_keys_setitem)
  moreover have "\<forall>(v, lns) \<in> set (setitem vdid lns1 data). lanes_distinct lns"
    using assms d1 set_setitem [of vdid lns1 data] by (auto simp: devices_distinct_def)
  ultimately show ?thesis unfolding ad devices_distinct_def by simp
qed

lemma devices_distinct_et_body: "devices_distinct data \<Longrightarrow> devices_distinct (fst (et_body e data))"
  by (auto simp: et_body_def Let_def devices_distinct_add_device)

lemma devices_distinct_et: "devices_distinct (fst (iterparse_end et_body e []))"
proof (rule iterparse_invariant)
  show "devices_distinct []" by (simp add: devices_distinct_def keys_def)
next
  fix e s
  assume "devices_distinct s"
  then show "devices_distinct (fst (et_body e s))" by (rule devices_distinct_et_body)
qed

subsection \<open>The fields of a lane through the two inner loops\<close>

lemma lane_field_add_lane_other:
  "lane_key l \<noteq> key \<Longrightarrow> lane_field (add_lane l lns) key k = lane_field lns key k"
  by (simp add: lane_field_def getitem_add_lane)

lemma lane_field_fold_other:
  "\<forall>l \<in> set ls. lane_key l \<noteq> key \<Longrightarrow> lane_field (fold add_lane ls lns) key k = lane_field lns key k"
  by (induction ls arbitrary: lns) (simp_all add: lane_field_add_lane_other)

lemma lane_field_scalar:
  "lane_field (add_lane lane lns) (lane_key lane) ''Speed'' = Some (findtext (NS @ ''Speed'') [] lane)"
  "lane_field (add_lane lane lns) (lane_key lane) ''Occupancy'' = Some (findtext (NS @ ''Occupancy'') [] lane)"
  by (simp_all add: lane_field_def getitem_add_lane getitem_fold_add_vehicle_scalar getitem_setitem)

lemma lane_field_vehicle:
  assumes "distinct (filter (\<lambda>s. s \<noteq> []) (map vt_of (findall_desc (NS @ ''Vehicle'') lane)))"
    and "v \<in> set (findall_desc (NS @ ''Vehicle'') lane)" and "vt_of v \<noteq> []"
  shows "lane_field (add_lane lane lns) (lane_key lane) (vt_of v @ ''_Volume'')
           = Some (findtext (NS @ ''Volume'') [] v)"
    and "lane_field (add_lane lane lns) (lane_key lane) (vt_of v @ ''_Vehicle_Speed'')
           = Some (findtext (NS @ ''Speed'') [] v)"
  using getitem_fold_add_vehicle [OF assms]
  by (simp_all add: lane_field_def getitem_add_lane)

lemma lane_field_vehicle_present:
  assumes "v \<in> set (findall_desc (NS @ ''Vehicle'') lane)" and "vt_of v \<noteq> []"
  shows "lane_field (add_lane lane lns) (lane_key lane) (vt_of v @ ''_Volume'') \<noteq> None"
    and "lane_field (add_lane lane lns) (lane_key lane) (vt_of v @ ''_Vehicle_Speed'') \<noteq> None"
  using assms
  by (auto simp: lane_field_def getitem_add_lane getitem_None_iff keys_fold_add_vehicle)

lemma lane_field_add_lane_mono:
  assumes "lane_field lns key k \<noteq> None"
  shows "lane_field (add_lane l lns) key k \<noteq> None"
proof (cases "lane_key l = key")
  case False
  then show ?thesis using assms by (simp add: lane_field_add_lane_other)
next
  case True
  from assms obtain r y where r: "getitem lns key = Some r" and y: "getitem r k = Some y"
    by (auto simp: lane_field_def split: option.splits)
  have k: "k \<in> set (keys r)" using y by (rule getitem_keys)
  have "k \<in> set (keys (fold add_vehicle (findall_desc (NS @ ''Vehicle'') l)
             (setitem ''Occupancy'' (findtext (NS @ ''Occupancy'') [] l)
               (setitem ''Speed'' (findtext (NS @ ''Speed'') [] l) r))))"
    using k by (simp add: keys_fold_add_vehicle keys_setitem)
  then have "getitem (fold add_vehicle (findall_desc (NS @ ''Vehicle'') l)
             (setitem ''Occupancy'' (findtext (NS @ ''Occupancy'') [] l)
               (setitem ''Speed'' (findtext (NS @ ''Speed'') [] l) r))) k \<noteq> None"
    by (simp only: getitem_None_iff not_not)
  then show ?thesis using True r
    by (simp add: lane_field_def getitem_add_lane)
qed

lemma lane_field_fold_mono:
  "lane_field lns key k \<noteq> None \<Longrightarrow> lane_field (fold add_lane ls lns) key k \<noteq> None"
proof (induction ls arbitrary: lns)
  case Nil
  then show ?case by simp
next
  case (Cons l ls)
  have "lane_field (add_lane l lns) key k \<noteq> None"
    using Cons.prems by (rule lane_field_add_lane_mono)
  then have "lane_field (fold add_lane ls (add_lane l lns)) key k \<noteq> None" by (rule Cons.IH)
  then show ?case by simp
qed

lemma lane_field_fold_present:
  assumes "lane \<in> set ls" and "\<And>lns'. lane_field (add_lane lane lns') (lane_key lane) k \<noteq> None"
  shows "lane_field (fold add_lane ls lns) (lane_key lane) k \<noteq> None"
proof -
  from assms(1) obtain ls1 ls2 where ls: "ls = ls1 @ lane # ls2" by (meson split_list)
  have "lane_field (fold add_lane ls2 (add_lane lane (fold add_lane ls1 lns))) (lane_key lane) k \<noteq> None"
    by (rule lane_field_fold_mono) (rule assms(2))
  then show ?thesis unfolding ls by simp
qed

lemma lane_field_fold_last:
  assumes "lane \<in> set ls" and "\<forall>l \<in> set ls. lane_key l = lane_key lane \<longrightarrow> l = lane"
    and "\<And>lns'. lane_field (add_lane lane lns') (lane_key lane) k = Some x"
  shows "lane_field (fold add_lane ls lns) (lane_key lane) k = Some x"
proof -
  from assms(1) obtain ls1 ls2 where ls: "ls = ls1 @ lane # ls2" and n: "lane \<notin> set ls2"
    by (meson split_list_last)
  have "\<forall>l \<in> set ls2. lane_key l \<noteq> lane_key lane" using assms(2) n ls by auto
  then show ?thesis unfolding ls by (simp add: lane_field_fold_other assms(3))
qed

subsection \<open>The fields of a device through the outer loop\<close>

lemma device_field_add_device:
  "device_field (add_device vdid e d) vdid key k =
     lane_field (fold add_lane (findall_desc (NS @ ''Lane'') e)
                   (case getitem d vdid of None \<Rightarrow> [] | Some l \<Rightarrow> l)) key k"
  by (simp add: device_field_def getitem_add_device)

lemma device_field_et_body_other:
  "vdid_of y \<noteq> vdid \<Longrightarrow> device_field (fst (et_body y d)) vdid key k = device_field d vdid key k"
  by (simp add: device_field_def getitem_et_body_other)

lemma device_field_fold_other:
  "\<forall>y \<in> set ys. vdid_of y \<noteq> vdid \<Longrightarrow>
   device_field (fold (\<lambda>e d. fst (et_body e d)) ys d) vdid key k = device_field d vdid key k"
  by (induction ys arbitrary: d) (simp_all add: device_field_et_body_other)

lemma device_field_et_body_mono:
  assumes "device_field d vdid key k \<noteq> None"
  shows "device_field (fst (et_body y d)) vdid key k \<noteq> None"
proof (cases "etag y = NS @ ''VDLive'' \<and> vdid_of y = vdid \<and> vdid \<noteq> []")
  case True
  from assms obtain lns where l: "getitem d vdid = Some lns" and f: "lane_field lns key k \<noteq> None"
    by (auto simp: device_field_def split: option.splits)
  have "lane_field (fold add_lane (findall_desc (NS @ ''Lane'') y) lns) key k \<noteq> None"
    using f by (rule lane_field_fold_mono)
  moreover have "fst (et_body y d) = add_device vdid y d"
    using True by (simp add: et_body_VDLive)
  ultimately show ?thesis using l by (simp add: device_field_add_device)
next
  case False
  then have "fst (et_body y d) = d \<or> vdid_of y \<noteq> vdid"
    by (auto simp: et_body_def vdid_of_def Let_def)
  then show ?thesis
  proof
    assume "fst (et_body y d) = d"
    then show ?thesis using assms by simp
  next
    assume "vdid_of y \<noteq> vdid"
    then have "device_field (fst (et_body y d)) vdid key k = device_field d vdid key k"
      by (rule device_field_et_body_other)
    then show ?thesis using assms by simp
  qed
qed

lemma device_field_fold_mono:
  "device_field d vdid key k \<noteq> None \<Longrightarrow>
   device_field (fold (\<lambda>e d. fst (et_body e d)) ys d) vdid key k \<noteq> None"
proof (induction ys arbitrary: d)
  case Nil
  then show ?case by simp
next
  case (Cons y ys)
  have "device_field (fst (et_body y d)) vdid key k \<noteq> None"
    using Cons.prems by (rule device_field_et_body_mono)
  then have "device_field (fold (\<lambda>e d. fst (et_body e d)) ys (fst (et_body y d))) vdid key k \<noteq> None"
    by (rule Cons.IH)
  then show ?case by simp
qed

lemma device_field_fold_present:
  assumes "e \<in> set es" and "etag e = NS @ ''VDLive''" and "vdid_of e \<noteq> []"
    and "\<And>lns0. lane_field (fold add_lane (findall_desc (NS @ ''Lane'') e) lns0) key k \<noteq> None"
  shows "device_field (fold (\<lambda>e d. fst (et_body e d)) es d) (vdid_of e) key k \<noteq> None"
proof -
  from assms(1) obtain es1 es2 where es: "es = es1 @ e # es2" by (meson split_list)
  let ?d1 = "fold (\<lambda>e d. fst (et_body e d)) es1 d"
  have "device_field (add_device (vdid_of e) e ?d1) (vdid_of e) key k \<noteq> None"
    by (simp only: device_field_add_device assms(4) not_False_eq_True)
  then have "device_field (fst (et_body e ?d1)) (vdid_of e) key k \<noteq> None"
    using assms(2,3) by (simp add: et_body_VDLive)
  then have "device_field (fold (\<lambda>e d. fst (et_body e d)) es2 (fst (et_body e ?d1))) (vdid_of e) key k \<noteq> None"
    by (rule device_field_fold_mono)
  then show ?thesis unfolding es by simp
qed

lemma device_field_fold_last:
  assumes "e \<in> set es" and "\<forall>e' \<in> set es. vdid_of e' = vdid_of e \<longrightarrow> e' = e"
    and "etag e = NS @ ''VDLive''" and "vdid_of e \<noteq> []"
    and "\<And>lns0. lane_field (fold add_lane (findall_desc (NS @ ''Lane'') e) lns0) key k = Some x"
  shows "device_field (fold (\<lambda>e d. fst (et_body e d)) es d) (vdid_of e) key k = Some x"
proof -
  from assms(1) obtain es1 es2 where es: "es = es1 @ e # es2" and n: "e \<notin> set es2"
    by (meson split_list_last)
  have "\<forall>y \<in> set es2. vdid_of y \<noteq> vdid_of e" using assms(2) n es by auto
  then show ?thesis unfolding es using assms(3,4)
    by (simp add: device_field_fold_other et_body_VDLive device_field_add_device assms(5))
qed

text \<open>The lane keys of a device come from the \<open>Lane\<close> elements of its \<open>VDLive\<close> elements.\<close>

lemma device_lane_keys_et_body:
  assumes "\<forall>lns. getitem d vdid = Some lns \<longrightarrow> (\<forall>k \<in> set (keys lns). P k)"
    and "vdid_of y = vdid \<longrightarrow> (\<forall>l \<in> set (findall_desc (NS @ ''Lane'') y). P (lane_key l))"
  shows "\<forall>lns. getitem (fst (et_body y d)) vdid = Some lns \<longrightarrow> (\<forall>k \<in> set (keys lns). P k)"
proof (cases "etag y = NS @ ''VDLive'' \<and> vdid_of y = vdid \<and> vdid \<noteq> []")
  case True
  have "\<forall>k \<in> set (keys (case getitem d vdid of None \<Rightarrow> [] | Some l \<Rightarrow> l)). P k"
  proof (cases "getitem d vdid")
    case None
    then show ?thesis by (simp add: keys_def)
  next
    case (Some l)
    then show ?thesis using assms(1) by simp
  qed
  then show ?thesis using True assms(2)
    by (auto simp: et_body_VDLive getitem_add_device keys_fold_add_lane)
next
  case False
  then have "fst (et_body y d) = d \<or> vdid_of y \<noteq> vdid"
    by (auto simp: et_body_def vdid_of_def Let_def)
  then show ?thesis using assms(1) by (auto simp: getitem_et_body_other)
qed

lemma device_lane_keys_fold:
  "\<forall>lns. getitem d vdid = Some lns \<longrightarrow> (\<forall>k \<in> set (keys lns). P k) \<Longrightarrow>
   \<forall>y \<in> set ys. vdid_of y = vdid \<longrightarrow> (\<forall>l \<in> set (findall_desc (NS @ ''Lane'') y). P (lane_key l)) \<Longrightarrow>
   \<forall>lns. getitem (fold (\<lambda>e d. fst (et_body e d)) ys d) vdid = Some lns \<longrightarrow> (\<forall>k \<in> set (keys lns). P k)"
proof (induction ys arbitrary: d)
  case Nil
  then show ?case by simp
next
  case (Cons y ys)
  have "\<forall>lns. getitem (fst (et_body y d)) vdid = Some lns \<longrightarrow> (\<forall>k \<in> set (keys lns). P k)"
    using Cons.prems by (intro device_lane_keys_et_body) auto
  then show ?case using Cons.IH Cons.prems(2) by simp
qed

subsection \<open>From the collected devices to the table\<close>

lemma underscore_split:
  "CHR ''_'' \<notin> set a \<Longrightarrow> CHR ''_'' \<notin> set b \<Longrightarrow> a @ CHR ''_'' # x = b @ CHR ''_'' # y \<Longrightarrow> a = b \<and> x = y"
proof (induction a arbitrary: b)
  case Nil
  then show ?case by (cases b) auto
next
  case (Cons c a)
  then show ?case by (cases b) auto
qed

lemma distinct_keys_dict_update: "distinct (keys d) \<Longrightarrow> distinct (keys (dict_update d e))"
  unfolding dict_update_def
  by (induction e arbitrary: d) (auto simp: distinct_keys_setitem)

lemma map_of_map_inj_key:
  "inj g \<Longrightarrow> map_of (map (\<lambda>(k, v). (g k, v)) xs) (g k) = map_of xs k"
  by (induction xs) (auto simp: inj_def)

lemma getitem_flatten_lane:
  assumes "distinct (keys kv)"
  shows "getitem (flatten_lane lk kv) (lk @ ''_'' @ k) = getitem kv k"
proof -
  have i: "inj (\<lambda>k. lk @ ''_'' @ k)" by (simp add: inj_def)
  have "getitem (flatten_lane lk kv) (lk @ ''_'' @ k)
          = (case map_of (rev (map (\<lambda>(k, v). (lk @ ''_'' @ k, v)) kv)) (lk @ ''_'' @ k) of
               None \<Rightarrow> getitem [] (lk @ ''_'' @ k) | Some v \<Rightarrow> Some v)"
    by (simp only: flatten_lane_def dict_of_def getitem_dict_update)
  also have "\<dots> = map_of (map (\<lambda>(k, v). (lk @ ''_'' @ k, v)) (rev kv)) (lk @ ''_'' @ k)"
    by (simp add: rev_map getitem_def split: option.splits)
  also have "\<dots> = map_of (rev kv) k"
    using map_of_map_inj_key [OF i] by simp
  also have "\<dots> = getitem kv k"
    using assms by (simp add: getitem_def map_of_rev_distinct keys_def)
  finally show ?thesis .
qed

lemma getitem_fold_flatten_other:
  "\<forall>(lk, kv) \<in> set lns. c \<notin> set (keys (flatten_lane lk kv)) \<Longrightarrow>
   getitem (fold (\<lambda>(lane_id, kv) row. dict_update row (flatten_lane lane_id kv)) lns row) c = getitem row c"
proof (induction lns arbitrary: row)
  case Nil
  then show ?case by simp
next
  case (Cons p lns)
  obtain lk kv where p: "p = (lk, kv)" by (cases p)
  have "c \<notin> set (keys (flatten_lane lk kv))" using Cons.prems by (simp add: p)
  then have "getitem (dict_update row (flatten_lane lk kv)) c = getitem row c"
    by (simp add: getitem_dict_update map_of_rev_None [THEN iffD2])
  then show ?case using Cons by (simp add: p)
qed

lemma getitem_fold_flatten_field:
  assumes "distinct (keys lns)" and "(key, rec) \<in> set lns" and "distinct (keys rec)"
    and "getitem rec k = Some x"
    and "\<forall>(lk, kv) \<in> set lns. lk \<noteq> key \<longrightarrow> key @ ''_'' @ k \<notin> set (keys (flatten_lane lk kv))"
  shows "getitem (fold (\<lambda>(lane_id, kv) row. dict_update row (flatten_lane lane_id kv)) lns row)
           (key @ ''_'' @ k) = Some x"
  using assms(1,2,5)
proof (induction lns arbitrary: row)
  case Nil
  then show ?case by simp
next
  case (Cons p lns)
  obtain lk kv where p: "p = (lk, kv)" by (cases p)
  show ?case
  proof (cases "p = (key, rec)")
    case True
    have "key \<notin> set (keys lns)" using Cons.prems(1) True by (simp add: keys_def)
    then have o: "\<forall>(lk, kv) \<in> set lns. key @ ''_'' @ k \<notin> set (keys (flatten_lane lk kv))"
      using Cons.prems(3) by (force simp: keys_def)
    have d: "distinct (keys (flatten_lane key rec))"
      unfolding flatten_lane_def dict_of_def
      by (rule distinct_keys_dict_update) (simp add: keys_def)
    have "map_of (rev (flatten_lane key rec)) = map_of (flatten_lane key rec)"
      using d unfolding keys_def by (rule map_of_rev_distinct)
    then have "map_of (rev (flatten_lane key rec)) (key @ ''_'' @ k) = Some x"
      using getitem_flatten_lane [OF assms(3), of key k] assms(4) by (simp add: getitem_def)
    then have "getitem (dict_update row (flatten_lane key rec)) (key @ ''_'' @ k) = Some x"
      by (simp add: getitem_dict_update)
    then show ?thesis using True getitem_fold_flatten_other [OF o] by simp
  next
    case False
    then have m: "(key, rec) \<in> set lns" using Cons.prems(2) by simp
    have d: "distinct (keys lns)" using Cons.prems(1) by (simp add: keys_def)
    have o: "\<forall>(lk, kv) \<in> set lns. lk \<noteq> key \<longrightarrow> key @ ''_'' @ k \<notin> set (keys (flatten_lane lk kv))"
      using Cons.prems(3) by simp
    show ?thesis using Cons.IH [OF d m o] by (simp add: p)
  qed
qed

lemma getitem_flatten_device_field:
  assumes "lanes_distinct lns" and "\<forall>lk \<in> set (keys lns). CHR ''_'' \<notin> set lk"
    and "lane_field lns key k = Some x"
  shows "getitem (flatten_device vdid lns) (key @ ''_'' @ k) = Some x"
proof -
  from assms(3) obtain rec where g: "getitem lns key = Some rec" and r: "getitem rec k = Some x"
    by (auto simp: lane_field_def split: option.splits)
  have m: "(key, rec) \<in> set lns" using g by (rule getitem_in_set)
  have dr: "distinct (keys rec)" using assms(1) m by (auto simp: lanes_distinct_def)
  have ku: "CHR ''_'' \<notin> set key" using assms(2) getitem_keys [OF g] by blast
  have o: "\<forall>(lk, kv) \<in> set lns. lk \<noteq> key \<longrightarrow> key @ ''_'' @ k \<notin> set (keys (flatten_lane lk kv))"
  proof (intro ballI, clarify)
    fix lk kv
    assume a: "(lk, kv) \<in> set lns" "lk \<noteq> key" "key @ ''_'' @ k \<in> set (keys (flatten_lane lk kv))"
    have "CHR ''_'' \<notin> set lk" using assms(2) a(1) by (force simp: keys_def)
    moreover from a(3) obtain k' where "key @ ''_'' @ k = lk @ ''_'' @ k'"
      by (auto simp: keys_flatten_lane)
    ultimately show False using underscore_split [of key lk k k'] ku a(2) by simp
  qed
  show ?thesis unfolding flatten_device_def
    using assms(1) by (intro getitem_fold_flatten_field [OF _ m dr r o]) (simp add: lanes_distinct_def)
qed

lemma flatten_device_in_rows:
  "getitem data vdid = Some lns \<Longrightarrow> flatten_device vdid lns \<in> set (flatten_rows data)"
  by (force simp: flatten_rows_def dest: getitem_in_set)

lemma record_of_dict:
  assumes "d \<in> set ds"
  shows "\<exists>r \<in> set (records (DataFrame ds)). \<forall>c x. getitem d c = Some x \<longrightarrow> getitem r c = Some (Str x)"
proof -
  let ?cols = "add_new [] (concat (map keys ds))"
  let ?r = "zip ?cols (map (\<lambda>c. case getitem d c of None \<Rightarrow> NaN | Some v \<Rightarrow> Str v) ?cols)"
  have m: "?r \<in> set (records (DataFrame ds))"
    using assms by (auto simp: records_def DataFrame_def Let_def)
  have "\<forall>c x. getitem d c = Some x \<longrightarrow> getitem ?r c = Some (Str x)"
  proof (intro allI impI)
    fix c x
    assume g: "getitem d c = Some x"
    then have "c \<in> set ?cols" using assms getitem_keys [OF g] by (auto simp: set_add_new)
    then show "getitem ?r c = Some (Str x)"
      using g by (simp add: getitem_def map_of_zip_map)
  qed
  then show ?thesis using m by blast
qed

subsection \<open>The columns of a lane in the returned table\<close>

lemma document_lane_columns:
  assumes e: "e \<in> set (seen root)" and ne: "vdid_of e \<noteq> []"
    and lane: "lane \<in> set (findall_desc (NS @ ''Lane'') e)"
    and vehs: "vehs = findall_desc (NS @ ''Vehicle'') lane"
    and dist: "distinct (filter (\<lambda>s. s \<noteq> []) (map vt_of vehs))"
  shows "\<exists>r \<in> set (records (DataFrame (flatten_rows (fst (iterparse_end et_body root []))))).
      getitem r ''VDID'' = Some (Str (vdid_of e))
    \<and> (\<forall>v \<in> set vehs. vt_of v \<noteq> [] \<longrightarrow>
          (\<exists>x. getitem r (lane_key lane @ ''_'' @ vt_of v @ ''_Volume'') = Some (Str x))
        \<and> (\<exists>y. getitem r (lane_key lane @ ''_'' @ vt_of v @ ''_Vehicle_Speed'') = Some (Str y)))
    \<and> ((\<forall>e' \<in> set (seen root). vdid_of e' = vdid_of e \<longrightarrow> e' = e)
        \<and> (\<forall>l \<in> set (findall_desc (NS @ ''Lane'') e).
              CHR ''_'' \<notin> set (lane_key l) \<and> (lane_key l = lane_key lane \<longrightarrow> l = lane)) \<longrightarrow>
          getitem r (lane_key lane @ ''_Speed'') = Some (Str (findtext (NS @ ''Speed'') [] lane))
        \<and> getitem r (lane_key lane @ ''_Occupancy'') = Some (Str (findtext (NS @ ''Occupancy'') [] lane))
        \<and> (\<forall>v \<in> set vehs. vt_of v \<noteq> [] \<longrightarrow>
              getitem r (lane_key lane @ ''_'' @ vt_of v @ ''_Volume'')
                = Some (Str (findtext (NS @ ''Volume'') [] v))
            \<and> getitem r (lane_key lane @ ''_'' @ vt_of v @ ''_Vehicle_Speed'')
                = Some (Str (findtext (NS @ ''Speed'') [] v))))"
proof -
  define data where "data = fst (iterparse_end et_body root [])"
  define vdid where "vdid = vdid_of e"
  define key where "key = lane_key lane"
  have fold: "data = fold (\<lambda>e d. fst (et_body e d)) (seen root) []"
    unfolding data_def by (rule data_of_seen)
  have tag: "etag e = NS @ ''VDLive''" using e by (rule seen_tags)
  have dist': "distinct (filter (\<lambda>s. s \<noteq> []) (map vt_of (findall_desc (NS @ ''Vehicle'') lane)))"
    using dist vehs by simp
  have present: "device_field data vdid key k \<noteq> None"
    if "\<And>lns'. lane_field (add_lane lane lns') (lane_key lane) k \<noteq> None" for k
    unfolding fold vdid_def key_def
    by (rule device_field_fold_present [OF e tag ne]) (rule lane_field_fold_present [OF lane that])
  have "device_field data vdid key ''Speed'' \<noteq> None"
    by (rule present) (simp add: lane_field_scalar)
  then obtain lns where lns: "getitem data vdid = Some lns"
    by (auto simp: device_field_def split: option.splits)
  have field: "device_field data vdid key k = lane_field lns key k" for k
    by (simp add: device_field_def lns)
  let ?row = "flatten_device vdid lns"
  have "devices_ok data" unfolding data_def by (rule devices_ok_et)
  then have "lane_keys_ok lns" using getitem_in_set [OF lns] by (auto simp: devices_ok_def)
  then have row_vdid: "getitem ?row ''VDID'' = Some vdid" by (rule getitem_flatten_device)
  have "?row \<in> set (flatten_rows data)" using lns by (rule flatten_device_in_rows)
  then obtain r where r: "r \<in> set (records (DataFrame (flatten_rows data)))"
    and cells: "\<And>c x. getitem ?row c = Some x \<Longrightarrow> getitem r c = Some (Str x)"
    using record_of_dict [of ?row "flatten_rows data"] by blast
  have a: "getitem r ''VDID'' = Some (Str vdid)" using row_vdid by (rule cells)
  have col: "\<exists>x. getitem r (key @ ''_'' @ k) = Some (Str x)"
    if "\<And>lns'. lane_field (add_lane lane lns') (lane_key lane) k \<noteq> None" for k
  proof -
    have "lane_field lns key k \<noteq> None" using present [OF that] by (simp add: field)
    then obtain rec y where "getitem lns key = Some rec" "getitem rec k = Some y"
      by (auto simp: lane_field_def split: option.splits)
    then have "key @ ''_'' @ k \<in> set (keys ?row)" by (rule flatten_device_has_column)
    then have "getitem ?row (key @ ''_'' @ k) \<noteq> None" by (simp only: getitem_None_iff not_not)
    then obtain x where "getitem ?row (key @ ''_'' @ k) = Some x" by blast
    then have "getitem r (key @ ''_'' @ k) = Some (Str x)" by (rule cells)
    then show ?thesis by blast
  qed
  have b: "\<forall>v \<in> set vehs. vt_of v \<noteq> [] \<longrightarrow>
          (\<exists>x. getitem r (key @ ''_'' @ vt_of v @ ''_Volume'') = Some (Str x))
        \<and> (\<exists>y. getitem r (key @ ''_'' @ vt_of v @ ''_Vehicle_Speed'') = Some (Str y))"
  proof (intro ballI impI conjI)
    fix v
    assume v: "v \<in> set vehs" "vt_of v \<noteq> []"
    then have m: "v \<in> set (findall_desc (NS @ ''Vehicle'') lane)" using vehs by simp
    show "\<exists>x. getitem r (key @ ''_'' @ vt_of v @ ''_Volume'') = Some (Str x)"
      by (rule col) (rule lane_field_vehicle_present [OF m v(2)])
    show "\<exists>y. getitem r (key @ ''_'' @ vt_of v @ ''_Vehicle_Speed'') = Some (Str y)"
      by (rule col) (rule lane_field_vehicle_present [OF m v(2)])
  qed
  have c: "getitem r (key @ ''_Speed'') = Some (Str (findtext (NS @ ''Speed'') [] lane))
        \<and> getitem r (key @ ''_Occupancy'') = Some (Str (findtext (NS @ ''Occupancy'') [] lane))
        \<and> (\<forall>v \<in> set vehs. vt_of v \<noteq> [] \<longrightarrow>
              getitem r (key @ ''_'' @ vt_of v @ ''_Volume'')
                = Some (Str (findtext (NS @ ''Volume'') [] v))
            \<and> getitem r (key @ ''_'' @ vt_of v @ ''_Vehicle_Speed'')
                = Some (Str (findtext (NS @ ''Speed'') [] v)))"
    if once: "\<forall>e' \<in> set (seen root). vdid_of e' = vdid_of e \<longrightarrow> e' = e"
      and ids: "\<forall>l \<in> set (findall_desc (NS @ ''Lane'') e).
              CHR ''_'' \<notin> set (lane_key l) \<and> (lane_key l = lane_key lane \<longrightarrow> l = lane)"
  proof -
    have ids1: "\<forall>l \<in> set (findall_desc (NS @ ''Lane'') e). lane_key l = lane_key lane \<longrightarrow> l = lane"
      using ids by blast
    have "devices_distinct data" unfolding data_def by (rule devices_distinct_et)
    then have ld: "lanes_distinct lns" using getitem_in_set [OF lns] by (auto simp: devices_distinct_def)
    have "\<forall>lns. getitem data vdid = Some lns \<longrightarrow> (\<forall>k \<in> set (keys lns). CHR ''_'' \<notin> set k)"
      unfolding fold
    proof (rule device_lane_keys_fold)
      show "\<forall>lns. getitem [] vdid = Some lns \<longrightarrow> (\<forall>k \<in> set (keys lns). CHR ''_'' \<notin> set k)"
        by (simp add: getitem_def)
      show "\<forall>y \<in> set (seen root). vdid_of y = vdid \<longrightarrow>
              (\<forall>l \<in> set (findall_desc (NS @ ''Lane'') y). CHR ''_'' \<notin> set (lane_key l))"
        using once ids unfolding vdid_def by blast
    qed
    then have us: "\<forall>k \<in> set (keys lns). CHR ''_'' \<notin> set k" using lns by blast
    have val: "getitem r (key @ ''_'' @ k) = Some (Str x)"
      if "\<And>lns'. lane_field (add_lane lane lns') (lane_key lane) k = Some x" for k x
    proof -
      have "device_field data vdid key k = Some x"
        unfolding fold vdid_def key_def
        by (rule device_field_fold_last [OF e once tag ne])
           (rule lane_field_fold_last [OF lane ids1 that])
      then have "lane_field lns key k = Some x" by (simp add: field)
      then have "getitem ?row (key @ ''_'' @ k) = Some x"
        by (rule getitem_flatten_device_field [OF ld us])
      then show ?thesis by (rule cells)
    qed
    have s: "getitem r (key @ ''_'' @ ''Speed'') = Some (Str (findtext (NS @ ''Speed'') [] lane))"
      by (rule val) (rule lane_field_scalar)
    have o: "getitem r (key @ ''_'' @ ''Occupancy'') = Some (Str (findtext (NS @ ''Occupancy'') [] lane))"
      by (rule val) (rule lane_field_scalar)
    have v: "\<forall>v \<in> set vehs. vt_of v \<noteq> [] \<longrightarrow>
              getitem r (key @ ''_'' @ vt_of v @ ''_Volume'')
                = Some (Str (findtext (NS @ ''Volume'') [] v))
            \<and> getitem r (key @ ''_'' @ vt_of v @ ''_Vehicle_Speed'')
                = Some (Str (findtext (NS @ ''Speed'') [] v))"
    proof (intro ballI impI conjI)
      fix v
      assume v: "v \<in> set vehs" "vt_of v \<noteq> []"
      then have m: "v \<in> set (findall_desc (NS @ ''Vehicle'') lane)" using vehs by simp
      show "getitem r (key @ ''_'' @ vt_of v @ ''_Volume'') = Some (Str (findtext (NS @ ''Volume'') [] v))"
        by (rule val) (rule lane_field_vehicle [OF dist' m v(2)])
      show "getitem r (key @ ''_'' @ vt_of v @ ''_Vehicle_Speed'') = Some (Str (findtext (NS @ ''Speed'') [] v))"
        by (rule val) (rule lane_field_vehicle [OF dist' m v(2)])
    qed
    from s o v show ?thesis by simp
  qed
  show ?thesis
    unfolding data_def [symmetric] vdid_def [symmetric] key_def [symmetric]
    using r a b c unfolding vdid_def key_def by blast
qed

lemma add_lane_record:
  assumes "vehs = findall_desc (NS @ ''Vehicle'') lane"
    and "distinct (filter (\<lambda>s. s \<noteq> []) (map vt_of vehs))"
  shows "\<exists>rec. getitem (add_lane lane lns) (lane_key lane) = Some rec
      \<and> getitem rec ''Speed'' = Some (findtext (NS @ ''Speed'') [] lane)
      \<and> getitem rec ''Occupancy'' = Some (findtext (NS @ ''Occupancy'') [] lane)
      \<and> (\<forall>v \<in> set vehs. vt_of v \<noteq> [] \<longrightarrow>
            getitem rec (vt_of v @ ''_Volume'') = Some (findtext (NS @ ''Volume'') [] v)
          \<and> getitem rec (vt_of v @ ''_Vehicle_Speed'') = Some (findtext (NS @ ''Speed'') [] v))
      \<and> set (keys rec) =
          set (keys (case getitem lns (lane_key lane) of None \<Rightarrow> [] | Some r \<Rightarrow> r))
          \<union> {''Speed'', ''Occupancy''}
          \<union> (\<Union>v \<in> {v \<in> set vehs. vt_of v \<noteq> []}. {vt_of v @ ''_Volume'', vt_of v @ ''_Vehicle_Speed''})"
proof -
  define rec0 where "rec0 = (case getitem lns (lane_key lane) of None \<Rightarrow> [] | Some r \<Rightarrow> r)"
  define rec2 where "rec2 = setitem ''Occupancy'' (findtext (NS @ ''Occupancy'') [] lane)
                              (setitem ''Speed'' (findtext (NS @ ''Speed'') [] lane) rec0)"
  define rec3 where "rec3 = fold add_vehicle vehs rec2"
  have g: "getitem (add_lane lane lns) (lane_key lane) = Some rec3"
    by (simp add: getitem_add_lane rec3_def rec2_def rec0_def assms(1))
  have s: "getitem rec3 ''Speed'' = Some (findtext (NS @ ''Speed'') [] lane)"
    by (simp add: rec3_def getitem_fold_add_vehicle_scalar rec2_def getitem_setitem)
  have oc: "getitem rec3 ''Occupancy'' = Some (findtext (NS @ ''Occupancy'') [] lane)"
    by (simp add: rec3_def getitem_fold_add_vehicle_scalar rec2_def getitem_setitem)
  have v: "\<forall>v \<in> set vehs. vt_of v \<noteq> [] \<longrightarrow>
            getitem rec3 (vt_of v @ ''_Volume'') = Some (findtext (NS @ ''Volume'') [] v)
          \<and> getitem rec3 (vt_of v @ ''_Vehicle_Speed'') = Some (findtext (NS @ ''Speed'') [] v)"
    unfolding rec3_def using getitem_fold_add_vehicle [OF assms(2)] by blast
  have k: "set (keys rec3) = set (keys rec0) \<union> {''Speed'', ''Occupancy''}
          \<union> (\<Union>v \<in> {v \<in> set vehs. vt_of v \<noteq> []}. {vt_of v @ ''_Volume'', vt_of v @ ''_Vehicle_Speed''})"
    unfolding rec3_def keys_fold_add_vehicle by (auto simp: rec2_def keys_setitem)
  show ?thesis using g s oc v k unfolding rec0_def by blast
qed

section \<open>The claims about the Document Transformer\<close>

text \<open>
  Claim C5. No row that either transformer returns has an empty or missing \<open>VDID\<close>: in
  every row of the returned table the \<open>VDID\<close> cell holds a non-empty string. And a \<open>VDLive\<close>
  element whose device identifier is empty or absent (\<open>findtext\<close> with default \<open>""\<close> gives
  \<open>""\<close> in both cases) leaves the collected devices as they were, in both loop bodies.
\<close>

theorem no_blank_vdid:
  "(\<forall>df r. (parse_xml_lxml doc = Inr df \<or> parse_xml doc = Inr df) \<longrightarrow> r \<in> set (records df) \<longrightarrow>
       (\<exists>v. getitem r ''VDID'' = Some (Str v) \<and> v \<noteq> []))
   \<and> (findtext (NS @ ''VDID'') [] e = [] \<longrightarrow>
        fst (lxml_body e data) = data \<and> fst (et_body e data) = data)"
proof (intro conjI allI impI)
  fix df r
  assume p: "parse_xml_lxml doc = Inr df \<or> parse_xml doc = Inr df" and r: "r \<in> set (records df)"
  have "\<exists>data. devices_ok data \<and> df = DataFrame (flatten_rows data)"
    using p devices_ok_lxml devices_ok_et
    by (auto simp: parse_xml_lxml_def parse_xml_def split: sum.splits)
  then obtain data where ok: "devices_ok data" and df: "df = DataFrame (flatten_rows data)"
    by blast
  show "\<exists>v. getitem r ''VDID'' = Some (Str v) \<and> v \<noteq> []"
    using DataFrame_vdid[of "flatten_rows data" r] flatten_rows_vdid[OF ok] r df by blast
next
  assume "findtext (NS @ ''VDID'') [] e = []"
  then show "fst (lxml_body e data) = data"
    by (auto simp: lxml_body_def findtext_empty_iff split: option.splits)
next
  assume "findtext (NS @ ''VDID'') [] e = []"
  then show "fst (et_body e data) = data"
    by (simp add: et_body_def)
qed

theorem no_blank_vdid_witness:
  "parse_xml doc_plain = Inr \<lparr>columns = [''VDID'', ''L0_Speed'', ''L0_Occupancy'', ''L0_S_Volume'',
        ''L0_S_Vehicle_Speed'', ''L0_L_Volume'', ''L0_L_Vehicle_Speed''],
      rows = [[Str ''V1'', Str ''60'', Str ''5'', Str ''3'', Str ''61'', Str ''1'', Str ''55'']]\<rparr>
   \<and> (\<exists>v. getitem [(''VDID'', Str ''V1''), (''L0_Speed'', Str ''60''), (''L0_Occupancy'', Str ''5''),
         (''L0_S_Volume'', Str ''3''), (''L0_S_Vehicle_Speed'', Str ''61''),
         (''L0_L_Volume'', Str ''1''), (''L0_L_Vehicle_Speed'', Str ''55'')] ''VDID'' = Some (Str v) \<and> v \<noteq> [])
   \<and> findtext (NS @ ''VDID'') [] elem_blank = []
   \<and> fst (lxml_body elem_blank [(''V1'', [])]) = [(''V1'', [])]
   \<and> fst (et_body elem_blank [(''V1'', [])]) = [(''V1'', [])]"
proof -
  let ?df = "\<lparr>columns = [''VDID'', ''L0_Speed'', ''L0_Occupancy'', ''L0_S_Volume'',
        ''L0_S_Vehicle_Speed'', ''L0_L_Volume'', ''L0_L_Vehicle_Speed''],
      rows = [[Str ''V1'', Str ''60'', Str ''5'', Str ''3'', Str ''61'', Str ''1'', Str ''55'']]\<rparr>"
  let ?r = "[(''VDID'', Str ''V1''), (''L0_Speed'', Str ''60''), (''L0_Occupancy'', Str ''5''),
         (''L0_S_Volume'', Str ''3''), (''L0_S_Vehicle_Speed'', Str ''61''),
         (''L0_L_Volume'', Str ''1''), (''L0_L_Vehicle_Speed'', Str ''55'')]"
  have p: "parse_xml doc_plain = Inr ?df" by code_simp
  have r: "?r \<in> set (records ?df)" by (simp add: records_def)
  have b: "findtext (NS @ ''VDID'') [] elem_blank = []" by code_simp
  note t = no_blank_vdid [of doc_plain elem_blank "[(''V1'', [])]"]
  from t p r have "\<exists>v. getitem ?r ''VDID'' = Some (Str v) \<and> v \<noteq> []" by blast
  moreover from t b have "fst (lxml_body elem_blank [(''V1'', [])]) = [(''V1'', [])]
      \<and> fst (et_body elem_blank [(''V1'', [])]) = [(''V1'', [])]" by blast
  ultimately show ?thesis using p b by blast
qed

text \<open>
  Claim C4, as stated, fails. \<open>lxml\<close> keeps a comment as a node, so the text of an element
  stops at the comment, while \<open>ElementTree\<close> drops the comment and joins the text around it:
  on the document \<open><VDLive><VDID>V<!--c-->2</VDID></VDLive>\<close> the first transformer returns the
  device \<open>V\<close> and the second the device \<open>V2\<close>. And the libraries do not accept the same
  files: on a document declared in Big5 the first returns the table and the second raises
  \<open>ValueError\<close>; on a document nested deeper than 256 levels the first raises and the second
  returns the table.
\<close>

theorem parsers_differ_on_comment:
  "parse_xml_lxml doc_comment = Inr \<lparr>columns = [''VDID''], rows = [[Str ''V'']]\<rparr>
   \<and> parse_xml doc_comment = Inr \<lparr>columns = [''VDID''], rows = [[Str ''V2'']]\<rparr>
   \<and> parse_xml_lxml doc_comment \<noteq> parse_xml doc_comment
   \<and> parse_xml_lxml doc_big5 = Inr \<lparr>columns = [''VDID''], rows = [[Str ''V1'']]\<rparr>
   \<and> parse_xml doc_big5 = Inl ValueError
   \<and> parse_xml_lxml doc_deep = Inl ParseError
   \<and> parse_xml doc_deep \<noteq> Inl ParseError"
proof -
  have a: "parse_xml_lxml doc_comment = Inr \<lparr>columns = [''VDID''], rows = [[Str ''V'']]\<rparr>"
    by code_simp
  have b: "parse_xml doc_comment = Inr \<lparr>columns = [''VDID''], rows = [[Str ''V2'']]\<rparr>"
    by code_simp
  have c: "parse_xml_lxml doc_comment \<noteq> parse_xml doc_comment"
    unfolding a b by simp
  have d: "parse_xml_lxml doc_big5 = Inr \<lparr>columns = [''VDID''], rows = [[Str ''V1'']]\<rparr>"
    by code_simp
  have e: "parse_xml doc_big5 = Inl ValueError"
    by (simp add: parse_xml_def doc_big5_def)
  have f: "parse_xml_lxml doc_deep = Inl ParseError"
    by (simp add: parse_xml_lxml_def doc_deep_def)
  have g: "parse_xml doc_deep \<noteq> Inl ParseError"
    by (simp add: parse_xml_def doc_deep_def)
  show ?thesis using a b c d e f g by (intro conjI)
qed

text \<open>
  Claim C4, amended. For every document that both parser libraries accept, reading the
  same elements and character data from it, and that contains no comment (and no
  processing instruction), \<open>_parse_xml_lxml\<close> and \<open>_parse_xml\<close> return the same table: the
  same columns in the same order and the same rows with the same cells.
\<close>

theorem parsers_agree:
  assumes "lxml_reads doc = Inr (t, ns)" and "expat_reads doc = Inr (t, ns)"
    and "list_all comment_free ns"
  shows "\<exists>df. parse_xml_lxml doc = Inr df \<and> parse_xml doc = Inr df"
  using assms by (simp add: parse_xml_lxml_def parse_xml_def iterparse_tag_lxml lxml_root_eq)

theorem parsers_agree_witness:
  "lxml_reads doc_plain = expat_reads doc_plain
   \<and> (\<exists>df. parse_xml_lxml doc_plain = Inr df \<and> parse_xml doc_plain = Inr df)"
proof -
  let ?t = "NS @ ''VDLiveList''"
  let ?ns = "[XElem (NS @ ''VDLive'')
        [leaf ''VDID'' ''V1'',
         XElem (NS @ ''Lane'')
           [leaf ''LaneID'' ''0'', leaf ''Speed'' ''60'', leaf ''Occupancy'' ''5'',
            vehicle ''S'' ''3'' ''61'', vehicle ''L'' ''1'' ''55'']],
      XElem (NS @ ''VDLive'') [XElem (NS @ ''VDID'') [], XElem (NS @ ''Lane'') [leaf ''LaneID'' ''1'']]]"
  have h1: "lxml_reads doc_plain = Inr (?t, ?ns)" by (simp add: doc_plain_def)
  have h2: "expat_reads doc_plain = Inr (?t, ?ns)" by (simp add: doc_plain_def)
  have h3: "list_all comment_free ?ns" by (simp add: leaf_def vehicle_def)
  have e: "lxml_reads doc_plain = expat_reads doc_plain" by (simp add: doc_plain_def)
  show ?thesis by (intro conjI e parsers_agree [OF h1 h2 h3])
qed

text \<open>
  Claim C6, as stated, fails for a lane of a \<open>VDLive\<close> element whose device identifier is
  empty or absent: both loops skip the element before they look at its lanes, so the lane
  gets no Lane Record and no column. The document \<open>doc_blank_lane\<close> has one \<open>VDLive\<close> element,
  with an empty \<open>VDID\<close> and a lane with the two distinct classifications \<open>S\<close> and \<open>L\<close>; both
  transformers return the table without columns and without rows.
\<close>

theorem lane_of_blank_device_has_no_record:
  "seen (et_root (NS @ ''VDLiveList'')
        [XElem (NS @ ''VDLive'')
           [XElem (NS @ ''VDID'') [],
            XElem (NS @ ''Lane'')
              [leaf ''LaneID'' ''0'', leaf ''Speed'' ''60'', leaf ''Occupancy'' ''5'',
               vehicle ''S'' ''3'' ''61'', vehicle ''L'' ''1'' ''55'']]]) = [elem_blank_lane]
   \<and> findall_desc (NS @ ''Lane'') elem_blank_lane = [lane_two]
   \<and> map vt_of (findall_desc (NS @ ''Vehicle'') lane_two) = [''S'', ''L'']
   \<and> vdid_of elem_blank_lane = []
   \<and> parse_xml_lxml doc_blank_lane = Inr \<lparr>columns = [], rows = []\<rparr>
   \<and> parse_xml doc_blank_lane = Inr \<lparr>columns = [], rows = []\<rparr>
   \<and> records \<lparr>columns = [], rows = []\<rparr> = []"
proof -
  have a: "seen (et_root (NS @ ''VDLiveList'')
        [XElem (NS @ ''VDLive'')
           [XElem (NS @ ''VDID'') [],
            XElem (NS @ ''Lane'')
              [leaf ''LaneID'' ''0'', leaf ''Speed'' ''60'', leaf ''Occupancy'' ''5'',
               vehicle ''S'' ''3'' ''61'', vehicle ''L'' ''1'' ''55'']]]) = [elem_blank_lane]"
    by code_simp
  have b: "findall_desc (NS @ ''Lane'') elem_blank_lane = [lane_two]" by code_simp
  have c: "map vt_of (findall_desc (NS @ ''Vehicle'') lane_two) = [''S'', ''L'']" by code_simp
  have d: "vdid_of elem_blank_lane = []" by code_simp
  have e: "parse_xml_lxml doc_blank_lane = Inr \<lparr>columns = [], rows = []\<rparr>" by code_simp
  have f: "parse_xml doc_blank_lane = Inr \<lparr>columns = [], rows = []\<rparr>" by code_simp
  have g: "records \<lparr>columns = [], rows = []\<rparr> = []" by (simp add: records_def)
  show ?thesis using a b c d e f g by (intro conjI)
qed

text \<open>
  Claim C6, amended. Take a document as either transformer reads it, a \<open>VDLive\<close> element
  the loop works on whose device identifier is not empty, and a \<open>Lane\<close> element in it whose
  \<open>Vehicle\<close> elements have distinct non-empty classification values. Then the transformer
  returns a table, and the table has a row with the device's \<open>VDID\<close> in which, for every one
  of the lane's vehicles with a non-empty classification, the cells of the columns
  \<open>L{laneId}_{class}_Volume\<close> and \<open>L{laneId}_{class}_Vehicle_Speed\<close> hold values, not the
  absent-value marker. When the device is reported once in the document and the lane
  identifiers of the device are distinct and contain no underscore, these cells are that
  vehicle's own volume and speed, and \<open>L{laneId}_Speed\<close> and \<open>L{laneId}_Occupancy\<close> are the
  lane's. In the loop body, whatever lanes were collected before, the one Lane Record stored
  under the lane's key holds the lane's \<open>Speed\<close> and \<open>Occupancy\<close> and each such vehicle's own
  volume and speed under \<open>{class}_Volume\<close> and \<open>{class}_Vehicle_Speed\<close>, with no other new
  keys; and a vehicle with an empty classification changes nothing.
\<close>

theorem lane_record_accumulates:
  assumes "lxml_reads doc = Inr (t, ns) \<and> root = lxml_root t ns \<and> parse = parse_xml_lxml
         \<or> expat_reads doc = Inr (t, ns) \<and> root = et_root t ns \<and> parse = parse_xml"
    and "e \<in> set (seen root)" and "vdid_of e \<noteq> []"
    and "lane \<in> set (findall_desc (NS @ ''Lane'') e)"
    and "vehs = findall_desc (NS @ ''Vehicle'') lane"
    and "distinct (filter (\<lambda>s. s \<noteq> []) (map vt_of vehs))"
  shows "(\<exists>df. parse doc = Inr df \<and> (\<exists>r \<in> set (records df).
            getitem r ''VDID'' = Some (Str (vdid_of e))
          \<and> (\<forall>v \<in> set vehs. vt_of v \<noteq> [] \<longrightarrow>
                (\<exists>x. getitem r (lane_key lane @ ''_'' @ vt_of v @ ''_Volume'') = Some (Str x))
              \<and> (\<exists>y. getitem r (lane_key lane @ ''_'' @ vt_of v @ ''_Vehicle_Speed'') = Some (Str y)))
          \<and> ((\<forall>e' \<in> set (seen root). vdid_of e' = vdid_of e \<longrightarrow> e' = e)
              \<and> (\<forall>l \<in> set (findall_desc (NS @ ''Lane'') e).
                    CHR ''_'' \<notin> set (lane_key l) \<and> (lane_key l = lane_key lane \<longrightarrow> l = lane)) \<longrightarrow>
                getitem r (lane_key lane @ ''_Speed'') = Some (Str (findtext (NS @ ''Speed'') [] lane))
              \<and> getitem r (lane_key lane @ ''_Occupancy'') = Some (Str (findtext (NS @ ''Occupancy'') [] lane))
              \<and> (\<forall>v \<in> set vehs. vt_of v \<noteq> [] \<longrightarrow>
                    getitem r (lane_key lane @ ''_'' @ vt_of v @ ''_Volume'')
                      = Some (Str (findtext (NS @ ''Volume'') [] v))
                  \<and> getitem r (lane_key lane @ ''_'' @ vt_of v @ ''_Vehicle_Speed'')
                      = Some (Str (findtext (NS @ ''Speed'') [] v))))))
     \<and> (\<forall>lns. \<exists>rec. getitem (add_lane lane lns) (lane_key lane) = Some rec
          \<and> getitem rec ''Speed'' = Some (findtext (NS @ ''Speed'') [] lane)
          \<and> getitem rec ''Occupancy'' = Some (findtext (NS @ ''Occupancy'') [] lane)
          \<and> (\<forall>v \<in> set vehs. vt_of v \<noteq> [] \<longrightarrow>
                getitem rec (vt_of v @ ''_Volume'') = Some (findtext (NS @ ''Volume'') [] v)
              \<and> getitem rec (vt_of v @ ''_Vehicle_Speed'') = Some (findtext (NS @ ''Speed'') [] v))
          \<and> set (keys rec) =
              set (keys (case getitem lns (lane_key lane) of None \<Rightarrow> [] | Some r \<Rightarrow> r))
              \<union> {''Speed'', ''Occupancy''}
              \<union> (\<Union>v \<in> {v \<in> set vehs. vt_of v \<noteq> []}. {vt_of v @ ''_Volume'', vt_of v @ ''_Vehicle_Speed''}))
     \<and> (\<forall>v r. vt_of v = [] \<longrightarrow> add_vehicle v r = r)"
proof (intro conjI)
  have df: "parse doc = Inr (DataFrame (flatten_rows (fst (iterparse_end et_body root []))))"
    using assms(1)
    by (auto simp: parse_xml_lxml_def parse_xml_def iterparse_tag_lxml)
  show "\<exists>df. parse doc = Inr df \<and> (\<exists>r \<in> set (records df).
            getitem r ''VDID'' = Some (Str (vdid_of e))
          \<and> (\<forall>v \<in> set vehs. vt_of v \<noteq> [] \<longrightarrow>
                (\<exists>x. getitem r (lane_key lane @ ''_'' @ vt_of v @ ''_Volume'') = Some (Str x))
              \<and> (\<exists>y. getitem r (lane_key lane @ ''_'' @ vt_of v @ ''_Vehicle_Speed'') = Some (Str y)))
          \<and> ((\<forall>e' \<in> set (seen root). vdid_of e' = vdid_of e \<longrightarrow> e' = e)
              \<and> (\<forall>l \<in> set (findall_desc (NS @ ''Lane'') e).
                    CHR ''_'' \<notin> set (lane_key l) \<and> (lane_key l = lane_key lane \<longrightarrow> l = lane)) \<longrightarrow>
                getitem r (lane_key lane @ ''_Speed'') = Some (Str (findtext (NS @ ''Speed'') [] lane))
              \<and> getitem r (lane_key lane @ ''_Occupancy'') = Some (Str (findtext (NS @ ''Occupancy'') [] lane))
              \<and> (\<forall>v \<in> set vehs. vt_of v \<noteq> [] \<longrightarrow>
                    getitem r (lane_key lane @ ''_'' @ vt_of v @ ''_Volume'')
                      = Some (Str (findtext (NS @ ''Volume'') [] v))
                  \<and> getitem r (lane_key lane @ ''_'' @ vt_of v @ ''_Vehicle_Speed'')
                      = Some (Str (findtext (NS @ ''Speed'') [] v)))))"
    by (rule exI [of _ "DataFrame (flatten_rows (fst (iterparse_end et_body root [])))"],
        rule conjI, rule df, rule document_lane_columns [OF assms(2-6)])
next
  show "\<forall>lns. \<exists>rec. getitem (add_lane lane lns) (lane_key lane) = Some rec
          \<and> getitem rec ''Speed'' = Some (findtext (NS @ ''Speed'') [] lane)
          \<and> getitem rec ''Occupancy'' = Some (findtext (NS @ ''Occupancy'') [] lane)
          \<and> (\<forall>v \<in> set vehs. vt_of v \<noteq> [] \<longrightarrow>
                getitem rec (vt_of v @ ''_Volume'') = Some (findtext (NS @ ''Volume'') [] v)
              \<and> getitem rec (vt_of v @ ''_Vehicle_Speed'') = Some (findtext (NS @ ''Speed'') [] v))
          \<and> set (keys rec) =
              set (keys (case getitem lns (lane_key lane) of None \<Rightarrow> [] | Some r \<Rightarrow> r))
              \<union> {''Speed'', ''Occupancy''}
              \<union> (\<Union>v \<in> {v \<in> set vehs. vt_of v \<noteq> []}. {vt_of v @ ''_Volume'', vt_of v @ ''_Vehicle_Speed''})"
    by (intro allI add_lane_record [OF assms(5,6)])
next
  show "\<forall>v r. vt_of v = [] \<longrightarrow> add_vehicle v r = r"
    by (simp add: add_vehicle_def vt_of_def)
qed

theorem lane_record_accumulates_witness:
  "expat_reads doc_plain \<noteq> Inl ParseError
   \<and> elem_device \<in> set (seen (et_root (NS @ ''VDLiveList'')
        [XElem (NS @ ''VDLive'')
           [leaf ''VDID'' ''V1'',
            XElem (NS @ ''Lane'')
              [leaf ''LaneID'' ''0'', leaf ''Speed'' ''60'', leaf ''Occupancy'' ''5'',
               vehicle ''S'' ''3'' ''61'', vehicle ''L'' ''1'' ''55'']],
         XElem (NS @ ''VDLive'') [XElem (NS @ ''VDID'') [], XElem (NS @ ''Lane'') [leaf ''LaneID'' ''1'']]]))
   \<and> vdid_of elem_device = ''V1''
   \<and> lane_two \<in> set (findall_desc (NS @ ''Lane'') elem_device)
   \<and> distinct (filter (\<lambda>s. s \<noteq> []) (map vt_of [veh_elem ''S'' ''3'' ''61'', veh_elem ''L'' ''1'' ''55'']))
   \<and> (\<exists>df r. parse_xml doc_plain = Inr df \<and> r \<in> set (records df)
        \<and> getitem r ''VDID'' = Some (Str ''V1'')
        \<and> getitem r ''L0_Speed'' = Some (Str ''60'') \<and> getitem r ''L0_Occupancy'' = Some (Str ''5'')
        \<and> getitem r ''L0_S_Volume'' = Some (Str ''3'') \<and> getitem r ''L0_S_Vehicle_Speed'' = Some (Str ''61'')
        \<and> getitem r ''L0_L_Volume'' = Some (Str ''1'') \<and> getitem r ''L0_L_Vehicle_Speed'' = Some (Str ''55''))
   \<and> (\<exists>rec. getitem (add_lane lane_two []) ''L0'' = Some rec
        \<and> getitem rec ''S_Volume'' = Some ''3'' \<and> getitem rec ''S_Vehicle_Speed'' = Some ''61''
        \<and> getitem rec ''L_Volume'' = Some ''1'' \<and> getitem rec ''L_Vehicle_Speed'' = Some ''55'')"
proof -
  let ?t = "NS @ ''VDLiveList''"
  let ?ns = "[XElem (NS @ ''VDLive'')
           [leaf ''VDID'' ''V1'',
            XElem (NS @ ''Lane'')
              [leaf ''LaneID'' ''0'', leaf ''Speed'' ''60'', leaf ''Occupancy'' ''5'',
               vehicle ''S'' ''3'' ''61'', vehicle ''L'' ''1'' ''55'']],
         XElem (NS @ ''VDLive'') [XElem (NS @ ''VDID'') [], XElem (NS @ ''Lane'') [leaf ''LaneID'' ''1'']]]"
  let ?root = "et_root ?t ?ns"
  let ?S = "veh_elem ''S'' ''3'' ''61''"
  let ?L = "veh_elem ''L'' ''1'' ''55''"
  have rd: "expat_reads doc_plain = Inr (?t, ?ns)" by (simp add: doc_plain_def)
  have h0: "expat_reads doc_plain \<noteq> Inl ParseError" unfolding rd by simp
  have h1: "lxml_reads doc_plain = Inr (?t, ?ns) \<and> ?root = lxml_root ?t ?ns \<and> parse_xml = parse_xml_lxml
         \<or> expat_reads doc_plain = Inr (?t, ?ns) \<and> ?root = et_root ?t ?ns \<and> parse_xml = parse_xml"
    using rd by (intro disjI2 conjI refl)
  have h2: "elem_device \<in> set (seen ?root)" by code_simp
  have vd: "vdid_of elem_device = ''V1''" by code_simp
  have h3: "vdid_of elem_device \<noteq> []" unfolding vd by simp
  have h4: "lane_two \<in> set (findall_desc (NS @ ''Lane'') elem_device)" by code_simp
  have h5: "[?S, ?L] = findall_desc (NS @ ''Vehicle'') lane_two" by code_simp
  have h6: "distinct (filter (\<lambda>s. s \<noteq> []) (map vt_of [?S, ?L]))" by code_simp
  have u1: "\<forall>e' \<in> set (seen ?root). vdid_of e' = vdid_of elem_device \<longrightarrow> e' = elem_device"
    by code_simp
  have u2: "\<forall>l \<in> set (findall_desc (NS @ ''Lane'') elem_device).
              CHR ''_'' \<notin> set (lane_key l) \<and> (lane_key l = lane_key lane_two \<longrightarrow> l = lane_two)"
    by code_simp
  have k: "lane_key lane_two = ''L0''" by code_simp
  have ls: "findtext (NS @ ''Speed'') [] lane_two = ''60''" by code_simp
  have lo: "findtext (NS @ ''Occupancy'') [] lane_two = ''5''" by code_simp
  have s1: "vt_of ?S = ''S''" by code_simp
  have s2: "findtext (NS @ ''Volume'') [] ?S = ''3''" by code_simp
  have s3: "findtext (NS @ ''Speed'') [] ?S = ''61''" by code_simp
  have l1: "vt_of ?L = ''L''" by code_simp
  have l2: "findtext (NS @ ''Volume'') [] ?L = ''1''" by code_simp
  have l3: "findtext (NS @ ''Speed'') [] ?L = ''55''" by code_simp
  have ms: "?S \<in> set [?S, ?L]" by (rule list.set_intros(1))
  have ml: "?L \<in> set [?S, ?L]" by (rule list.set_intros(2), rule list.set_intros(1))
  have ns: "vt_of ?S \<noteq> []" unfolding s1 by simp
  have nl: "vt_of ?L \<noteq> []" unfolding l1 by simp
  note t = lane_record_accumulates [OF h1 h2 h3 h4 h5 h6]
  from t [THEN conjunct1] obtain df r where p: "parse_xml doc_plain = Inr df"
    and r: "r \<in> set (records df)"
    and id: "getitem r ''VDID'' = Some (Str (vdid_of elem_device))"
    and V: "(\<forall>e' \<in> set (seen ?root). vdid_of e' = vdid_of elem_device \<longrightarrow> e' = elem_device)
              \<and> (\<forall>l \<in> set (findall_desc (NS @ ''Lane'') elem_device).
                    CHR ''_'' \<notin> set (lane_key l) \<and> (lane_key l = lane_key lane_two \<longrightarrow> l = lane_two)) \<longrightarrow>
                getitem r (lane_key lane_two @ ''_Speed'') = Some (Str (findtext (NS @ ''Speed'') [] lane_two))
              \<and> getitem r (lane_key lane_two @ ''_Occupancy'') = Some (Str (findtext (NS @ ''Occupancy'') [] lane_two))
              \<and> (\<forall>v \<in> set [?S, ?L]. vt_of v \<noteq> [] \<longrightarrow>
                    getitem r (lane_key lane_two @ ''_'' @ vt_of v @ ''_Volume'')
                      = Some (Str (findtext (NS @ ''Volume'') [] v))
                  \<and> getitem r (lane_key lane_two @ ''_'' @ vt_of v @ ''_Vehicle_Speed'')
                      = Some (Str (findtext (NS @ ''Speed'') [] v)))"
    by (elim exE bexE conjE)
  note VV = V [THEN mp, OF conjI [OF u1 u2]]
  note sp = VV [THEN conjunct1]
  note oc = VV [THEN conjunct2, THEN conjunct1]
  note W = VV [THEN conjunct2, THEN conjunct2]
  note w = W [rule_format]
  have c0: "getitem r ''VDID'' = Some (Str ''V1'')" using id unfolding vd .
  have c1: "getitem r ''L0_Speed'' = Some (Str ''60'')" using sp unfolding k ls by simp
  have c2: "getitem r ''L0_Occupancy'' = Some (Str ''5'')" using oc unfolding k lo by simp
  have c3: "getitem r ''L0_S_Volume'' = Some (Str ''3'') \<and> getitem r ''L0_S_Vehicle_Speed'' = Some (Str ''61'')"
    using w [OF ms ns] unfolding k s1 s2 s3 by simp
  have c4: "getitem r ''L0_L_Volume'' = Some (Str ''1'') \<and> getitem r ''L0_L_Vehicle_Speed'' = Some (Str ''55'')"
    using w [OF ml nl] unfolding k l1 l2 l3 by simp
  have doc: "\<exists>df r. parse_xml doc_plain = Inr df \<and> r \<in> set (records df)
        \<and> getitem r ''VDID'' = Some (Str ''V1'')
        \<and> getitem r ''L0_Speed'' = Some (Str ''60'') \<and> getitem r ''L0_Occupancy'' = Some (Str ''5'')
        \<and> getitem r ''L0_S_Volume'' = Some (Str ''3'') \<and> getitem r ''L0_S_Vehicle_Speed'' = Some (Str ''61'')
        \<and> getitem r ''L0_L_Volume'' = Some (Str ''1'') \<and> getitem r ''L0_L_Vehicle_Speed'' = Some (Str ''55'')"
    using p r c0 c1 c2 c3 c4 by (intro exI [of _ df] exI [of _ r] conjI) simp_all
  from t [THEN conjunct2, THEN conjunct1, rule_format, of "[]"]
  obtain rec where g: "getitem (add_lane lane_two []) (lane_key lane_two) = Some rec"
    and R: "\<forall>v \<in> set [?S, ?L]. vt_of v \<noteq> [] \<longrightarrow>
                getitem rec (vt_of v @ ''_Volume'') = Some (findtext (NS @ ''Volume'') [] v)
              \<and> getitem rec (vt_of v @ ''_Vehicle_Speed'') = Some (findtext (NS @ ''Speed'') [] v)"
    by (elim exE conjE)
  note q = R [rule_format]
  have d0: "getitem (add_lane lane_two []) ''L0'' = Some rec" using g unfolding k .
  have d1: "getitem rec ''S_Volume'' = Some ''3'' \<and> getitem rec ''S_Vehicle_Speed'' = Some ''61''"
    using q [OF ms ns] unfolding s1 s2 s3 by simp
  have d2: "getitem rec ''L_Volume'' = Some ''1'' \<and> getitem rec ''L_Vehicle_Speed'' = Some ''55''"
    using q [OF ml nl] unfolding l1 l2 l3 by simp
  have lanerec: "\<exists>rec. getitem (add_lane lane_two []) ''L0'' = Some rec
        \<and> getitem rec ''S_Volume'' = Some ''3'' \<and> getitem rec ''S_Vehicle_Speed'' = Some ''61''
        \<and> getitem rec ''L_Volume'' = Some ''1'' \<and> getitem rec ''L_Vehicle_Speed'' = Some ''55''"
    using d0 d1 d2 by (intro exI [of _ rec] conjI) simp_all
  show ?thesis using h0 h2 vd h4 h6 doc lanerec by (intro conjI)
qed
section \<open>The claims about the Table Combiner and the Partition Writer\<close>




text \<open>
  Claim C8, as stated, fails for a row whose \<open>VDID\<close> is the absent-value marker:
  \<open>groupby\<close> leaves such a row out of every group, so the row is dropped. (\<open>pd.read_csv\<close>
  reads an empty cell, and texts such as \<open>NA\<close> or \<open>null\<close>, as \<open>NaN\<close>.) It also fails for
  a \<open>VDID\<close> that cannot be a file name: for the device \<open>a/b\<close> the writer raises \<open>OSError\<close>
  and no partition is produced.
\<close>

theorem row_without_vdid_is_dropped:
  "groupby ''VDID'' tab_nan =
     Inr [(''A'', \<lparr>columns = [''VDID'', ''L1_Speed'', ''file_name''],
                   rows = [[Str ''A'', Str ''60'', Str ''VDLive_0000.csv'']]\<rparr>)]
   \<and> [NaN, Str ''70'', Str ''VDLive_0000.csv''] \<in> set (rows tab_nan)
   \<and> [NaN, Str ''70'', Str ''VDLive_0000.csv''] \<notin> set [[Str ''A'', Str ''60'', Str ''VDLive_0000.csv'']]
   \<and> groupby ''VDID'' tab_slash = Inr [(''a/b'', tab_slash)]
   \<and> write_groups ''/data/20240101/VDID'' [(''a/b'', tab_slash)] world_empty
       = (Inl OSError, world_empty)"
proof -
  have a: "groupby ''VDID'' tab_nan =
     Inr [(''A'', \<lparr>columns = [''VDID'', ''L1_Speed'', ''file_name''],
                   rows = [[Str ''A'', Str ''60'', Str ''VDLive_0000.csv'']]\<rparr>)]"
    by code_simp
  have b: "[NaN, Str ''70'', Str ''VDLive_0000.csv''] \<in> set (rows tab_nan)"
    by (simp add: tab_nan_def)
  have c: "[NaN, Str ''70'', Str ''VDLive_0000.csv''] \<notin> set [[Str ''A'', Str ''60'', Str ''VDLive_0000.csv'']]"
    by simp
  have d: "groupby ''VDID'' tab_slash = Inr [(''a/b'', tab_slash)]" by code_simp
  have e: "write_groups ''/data/20240101/VDID'' [(''a/b'', tab_slash)] world_empty
       = (Inl OSError, world_empty)"
    by (simp add: usable_name_def)
  show ?thesis using a b c d e by (intro conjI)
qed

text \<open>
  Claim C8, amended. For every Combined Table with a \<open>VDID\<close> column in which every \<open>VDID\<close>
  present can be a file name (\<open>{vdid}.csv\<close> has no slash and no NUL byte and at most 255
  bytes), the Partition Writer produces exactly one partition per distinct \<open>VDID\<close> value
  present in the table, written to the file \<open>{vdid}.csv\<close> of the output directory, and
  changes no other file; a partition has the columns of the table and holds the rows with
  its \<open>VDID\<close>, in the order of the table; every row whose \<open>VDID\<close> is present is in exactly
  one partition, as often as it is in the table, and a row whose \<open>VDID\<close> is absent is in
  none.
\<close>

theorem partition_by_vdid:
  assumes "''VDID'' \<in> set (columns t)"
    and "\<forall>r \<in> set (rows t). \<forall>s. cell_of t r ''VDID'' = Str s \<longrightarrow> usable_name (s @ ''.csv'')"
  shows "\<exists>gs w'. groupby ''VDID'' t = Inr gs
     \<and> write_groups out_dir gs w = (Inr (), w')
     \<and> distinct (map fst gs)
     \<and> set (map fst gs) = {s. \<exists>r \<in> set (rows t). cell_of t r ''VDID'' = Str s}
     \<and> (\<forall>(k, g) \<in> set gs.
           columns g = columns t
         \<and> rows g = filter (\<lambda>r. cell_of t r ''VDID'' = Str k) (rows t)
         \<and> getitem (fs w') (joinpath out_dir (k @ ''.csv'')) = Some (Csv g))
     \<and> (\<forall>p. (\<forall>k \<in> set (map fst gs). p \<noteq> joinpath out_dir (k @ ''.csv'')) \<longrightarrow>
              getitem (fs w') p = getitem (fs w) p)
     \<and> mset (concat (map (\<lambda>(k, g). rows g) gs))
         = mset (filter (\<lambda>r. cell_of t r ''VDID'' \<noteq> NaN) (rows t))"
proof -
  let ?gs = "map (\<lambda>k. (k, \<lparr>columns = columns t,
                 rows = filter (\<lambda>r. cell_of t r ''VDID'' = Str k) (rows t)\<rparr>)) (group_keys ''VDID'' t)"
  let ?ps = "map (\<lambda>(k, g). (joinpath out_dir (k @ ''.csv''), Csv g)) ?gs"
  let ?w' = "w\<lparr>fs := dict_update (fs w) ?ps\<rparr>"
  have g: "groupby ''VDID'' t = Inr ?gs" using assms(1) by (simp add: groupby_def)
  have f: "map fst ?gs = group_keys ''VDID'' t" by (simp add: o_def)
  have d: "distinct (map fst ?gs)" unfolding f by (rule distinct_group_keys)
  have s: "set (map fst ?gs) = {s. \<exists>r \<in> set (rows t). cell_of t r ''VDID'' = Str s}"
    unfolding f by (rule set_group_keys)
  have u: "\<forall>(k, g) \<in> set ?gs. usable_name (k @ ''.csv'')"
    using assms(2) by (auto simp: set_group_keys)
  have wr: "write_groups out_dir ?gs w = (Inr (), ?w')"
    by (rule write_groups_usable [OF u])
  have e: "\<forall>(k, g) \<in> set ?gs.
           columns g = columns t
         \<and> rows g = filter (\<lambda>r. cell_of t r ''VDID'' = Str k) (rows t)
         \<and> getitem (fs ?w') (joinpath out_dir (k @ ''.csv'')) = Some (Csv g)"
  proof (intro ballI, clarify, intro conjI)
    fix k g assume m: "(k, g) \<in> set ?gs"
    then show "columns g = columns t" by auto
    from m show "rows g = filter (\<lambda>r. cell_of t r ''VDID'' = Str k) (rows t)" by auto
    from written_group [OF d m, of "fs w" out_dir]
    show "getitem (fs ?w') (joinpath out_dir (k @ ''.csv'')) = Some (Csv g)" by simp
  qed
  have o: "\<forall>p. (\<forall>k \<in> set (map fst ?gs). p \<noteq> joinpath out_dir (k @ ''.csv'')) \<longrightarrow>
              getitem (fs ?w') p = getitem (fs w) p"
  proof (intro allI impI)
    fix p assume "\<forall>k \<in> set (map fst ?gs). p \<noteq> joinpath out_dir (k @ ''.csv'')"
    from unwritten_path [OF this, of "fs w"]
    show "getitem (fs ?w') p = getitem (fs w) p" by simp
  qed
  have m: "mset (concat (map (\<lambda>(k, g). rows g) ?gs))
         = mset (filter (\<lambda>r. cell_of t r ''VDID'' \<noteq> NaN) (rows t))"
    using mset_groups [of t "''VDID''"] by (simp add: o_def)
  show ?thesis using g wr d s e o m by blast
qed

theorem partition_by_vdid_witness:
  "''VDID'' \<in> set (columns tab_ab)
   \<and> usable_name (''A'' @ ''.csv'') \<and> usable_name (''B'' @ ''.csv'')
   \<and> groupby ''VDID'' tab_ab =
     Inr [(''A'', \<lparr>columns = [''VDID'', ''L1_Speed'', ''file_name''],
                   rows = [[Str ''A'', Str ''60'', Str ''VDLive_0000.csv''],
                           [Str ''A'', Str ''61'', Str ''VDLive_0001.csv''],
                           [Str ''A'', Str ''62'', Str ''VDLive_0002.csv'']]\<rparr>),
          (''B'', \<lparr>columns = [''VDID'', ''L1_Speed'', ''file_name''],
                   rows = [[Str ''B'', Str ''50'', Str ''VDLive_0000.csv'']]\<rparr>)]
   \<and> (\<exists>gs w'. groupby ''VDID'' tab_ab = Inr gs
         \<and> write_groups ''/data/20240101/VDID'' gs world_empty = (Inr (), w')
         \<and> distinct (map fst gs)
         \<and> mset (concat (map (\<lambda>(k, g). rows g) gs))
            = mset (filter (\<lambda>r. cell_of tab_ab r ''VDID'' \<noteq> NaN) (rows tab_ab)))"
proof -
  have h: "''VDID'' \<in> set (columns tab_ab)" by (simp add: tab_ab_def)
  have ua: "usable_name (''A'' @ ''.csv'')" by (simp add: usable_name_def)
  have ub: "usable_name (''B'' @ ''.csv'')" by (simp add: usable_name_def)
  have c: "\<And>r s. r \<in> set (rows tab_ab) \<Longrightarrow> cell_of tab_ab r ''VDID'' = Str s \<Longrightarrow> s = ''A'' \<or> s = ''B''"
    by (auto simp: tab_ab_def cell_of_def)
  have h2: "\<forall>r \<in> set (rows tab_ab). \<forall>s. cell_of tab_ab r ''VDID'' = Str s \<longrightarrow> usable_name (s @ ''.csv'')"
    using c ua ub by blast
  have ev: "groupby ''VDID'' tab_ab =
     Inr [(''A'', \<lparr>columns = [''VDID'', ''L1_Speed'', ''file_name''],
                   rows = [[Str ''A'', Str ''60'', Str ''VDLive_0000.csv''],
                           [Str ''A'', Str ''61'', Str ''VDLive_0001.csv''],
                           [Str ''A'', Str ''62'', Str ''VDLive_0002.csv'']]\<rparr>),
          (''B'', \<lparr>columns = [''VDID'', ''L1_Speed'', ''file_name''],
                   rows = [[Str ''B'', Str ''50'', Str ''VDLive_0000.csv'']]\<rparr>)]"
    by code_simp
  have t: "\<exists>gs w'. groupby ''VDID'' tab_ab = Inr gs
         \<and> write_groups ''/data/20240101/VDID'' gs world_empty = (Inr (), w')
         \<and> distinct (map fst gs)
         \<and> mset (concat (map (\<lambda>(k, g). rows g) gs))
            = mset (filter (\<lambda>r. cell_of tab_ab r ''VDID'' \<noteq> NaN) (rows tab_ab))"
    using partition_by_vdid [OF h h2, of "''/data/20240101/VDID''" world_empty]
    by (elim exE conjE) (intro exI conjI; assumption)
  show ?thesis using h ua ub ev t by (intro conjI)
qed

section \<open>The claims about the Fetch Scheduler\<close>

text \<open>
  Claim C2, as stated, fails for a destination that existed before the run:
  \<open>_download_one\<close> returns at once when the destination exists and never looks at its
  size. With ten bytes of \<open>VDLive_0000.xml.gz\<close> on disk and a threshold of 1024, the file is
  still there, ten bytes long, after \<open>download_day\<close>.
\<close>

theorem undersized_leftover_stays:
  "snd (task env_offline ''20240101'' 0 0) = ''/data/20240101/compressed/VDLive_0000.xml.gz''
   \<and> task env_offline ''20240101'' 0 0 \<in> set (tasks env_offline ''20240101'')
   \<and> getitem (fs (snd (download_day env_offline ''20240101'' world_stub)))
        ''/data/20240101/compressed/VDLive_0000.xml.gz'' = Some (Gz 10 None)
   \<and> int 10 < MIN_FILE_SIZE env_offline"
proof -
  let ?p = "''/data/20240101/compressed/VDLive_0000.xml.gz''"
  have a: "snd (task env_offline ''20240101'' 0 0) = ?p" by code_simp
  have b: "task env_offline ''20240101'' 0 0 \<in> set (tasks env_offline ''20240101'')"
    by (rule task_in_tasks) simp_all
  have g: "getitem (fs world_stub) ?p = Some (Gz 10 None)" by code_simp
  then have ex: "exists_path ?p world_stub" by (simp add: exists_path_def)
  have "kept_or_valid env_offline world_stub
          (run_tasks env_offline (tasks env_offline ''20240101'') world_stub)"
    by (rule kept_or_valid_run) (rule kept_or_valid_refl)
  then have c: "getitem (fs (snd (download_day env_offline ''20240101'' world_stub))) ?p
      = Some (Gz 10 None)"
    using ex g unfolding kept_or_valid_def download_day_def by simp
  have d: "int 10 < MIN_FILE_SIZE env_offline" by (simp add: env_offline_def)
  show ?thesis using a b c d by (intro conjI)
qed

text \<open>
  Claim C2, amended. For every path, and so for every destination of the day's 1440
  Resource Descriptors, after the Fetch Scheduler returns: a destination that existed
  before the run is exactly as it was; a destination that did not exist before the run
  does not exist or is an artifact whose size is at least the minimum-size threshold.
\<close>

theorem download_day_keeps_or_validates:
  assumes "w' = snd (download_day e date w)"
  shows "(exists_path p w \<longrightarrow> getitem (fs w') p = getitem (fs w) p)
       \<and> (\<not> exists_path p w \<longrightarrow>
            \<not> exists_path p w' \<or>
            (\<exists>n d. getitem (fs w') p = Some (Gz n d) \<and> MIN_FILE_SIZE e \<le> int n))"
proof -
  have "kept_or_valid e w w'"
    unfolding assms download_day_def snd_conv
    by (rule kept_or_valid_run) (rule kept_or_valid_refl)
  then have "(exists_path p w \<longrightarrow> getitem (fs w') p = getitem (fs w) p)
        \<and> (\<not> exists_path p w \<longrightarrow> getitem (fs w') p = None \<or>
               (\<exists>n d. getitem (fs w') p = Some (Gz n d) \<and> MIN_FILE_SIZE e \<le> int n))"
    unfolding kept_or_valid_def by (rule spec)
  then show ?thesis by (simp add: exists_path_def)
qed

theorem download_day_keeps_or_validates_witness:
  "exists_path ''/data/20240101/compressed/VDLive_0000.xml.gz'' world_stub
   \<and> getitem (fs (snd (download_day env_offline ''20240101'' world_stub)))
        ''/data/20240101/compressed/VDLive_0000.xml.gz''
      = getitem (fs world_stub) ''/data/20240101/compressed/VDLive_0000.xml.gz''"
proof -
  let ?p = "''/data/20240101/compressed/VDLive_0000.xml.gz''"
  let ?w' = "snd (download_day env_offline ''20240101'' world_stub)"
  have ex: "exists_path ?p world_stub" by code_simp
  note t = download_day_keeps_or_validates [of ?w' env_offline "''20240101''" world_stub, OF refl]
  from t [of ?p] ex have a: "getitem (fs ?w') ?p = getitem (fs world_stub) ?p"
    by (rule conjunct1 [THEN mp])
  show ?thesis using ex a by (intro conjI)
qed

text \<open>
  Claim C9, as stated, fails when a retrieval of the first run failed: the destination of a
  failed retrieval is unlinked, so the second run finds it missing and retrieves it again.
  With an archive that cannot be reached, the first run makes 1440 retrievals and leaves no
  file, and the second run makes the same 1440 retrievals once more.
\<close>

theorem second_run_retrieves_again:
  "snd (download_day env_offline ''20240101'' world_empty)
     = \<lparr>fs = [], requests = map fst (tasks env_offline ''20240101'')\<rparr>
   \<and> snd (download_day env_offline ''20240101''
            \<lparr>fs = [], requests = map fst (tasks env_offline ''20240101'')\<rparr>)
     = \<lparr>fs = [], requests = map fst (tasks env_offline ''20240101'')
                            @ map fst (tasks env_offline ''20240101'')\<rparr>
   \<and> length (map fst (tasks env_offline ''20240101'')) = 1440"
proof -
  have off: "\<forall>u. net env_offline u = NoResponse" by (simp add: env_offline_def)
  show ?thesis
    using run_tasks_offline [OF off, of "tasks env_offline ''20240101''" "[]"]
      run_tasks_offline [OF off, of "tasks env_offline ''20240101''" "map fst (tasks env_offline ''20240101'')"]
    by (simp add: download_day_def world_empty_def length_tasks)
qed

text \<open>
  Claim C9, amended. Running the Fetch Scheduler a second time right after a first run, the
  second run performs no retrieval exactly when every destination of the day exists after
  the first run, and it then changes nothing at all; this is so, in particular, when the
  archive answers every URL with an artifact of at least the minimum size. A descriptor
  whose destination is missing after the first run is retrieved again.
\<close>

theorem second_run_retrievals:
  assumes "w1 = snd (download_day e date w)" and "w2 = snd (download_day e date w1)"
  shows "(requests w2 = requests w1 \<longleftrightarrow> (\<forall>(u, d) \<in> set (tasks e date). exists_path d w1))
       \<and> ((\<forall>(u, d) \<in> set (tasks e date). exists_path d w1) \<longrightarrow> w2 = w1)
       \<and> ((\<forall>u. \<exists>n d. net e u = Body n d \<and> MIN_FILE_SIZE e \<le> int n) \<longrightarrow> w2 = w1)"
proof -
  have w2: "w2 = run_tasks e (tasks e date) w1" by (simp add: assms(2) download_day_def)
  have a: "(\<forall>(u, d) \<in> set (tasks e date). exists_path d w1) \<Longrightarrow> w2 = w1"
    unfolding w2 by (rule run_tasks_all_exist)
  have b: "\<not> (\<forall>(u, d) \<in> set (tasks e date). exists_path d w1) \<Longrightarrow> requests w2 \<noteq> requests w1"
  proof -
    assume "\<not> (\<forall>(u, d) \<in> set (tasks e date). exists_path d w1)"
    then have "\<exists>(u, d) \<in> set (tasks e date). \<not> exists_path d w1" by auto
    then have "length (requests w1) < length (requests w2)"
      unfolding w2 by (rule run_tasks_some_missing)
    then show "requests w2 \<noteq> requests w1" by auto
  qed
  have c: "(\<forall>u. \<exists>n d. net e u = Body n d \<and> MIN_FILE_SIZE e \<le> int n) \<Longrightarrow>
      (\<forall>(u, d) \<in> set (tasks e date). exists_path d w1)"
    unfolding assms(1) download_day_def snd_conv by (rule all_exist_after_valid_run)
  show ?thesis using a b c by blast
qed

theorem second_run_retrievals_witness:
  "(\<forall>u. \<exists>n d. net env_online u = Body n d \<and> MIN_FILE_SIZE env_online \<le> int n)
   \<and> snd (download_day env_online ''20240101'' (snd (download_day env_online ''20240101'' world_empty)))
     = snd (download_day env_online ''20240101'' world_empty)
   \<and> requests (snd (download_day env_online ''20240101'' (snd (download_day env_online ''20240101'' world_empty))))
     = requests (snd (download_day env_online ''20240101'' world_empty))"
proof -
  let ?w1 = "snd (download_day env_online ''20240101'' world_empty)"
  let ?w2 = "snd (download_day env_online ''20240101'' ?w1)"
  have h: "\<forall>u. \<exists>n d. net env_online u = Body n d \<and> MIN_FILE_SIZE env_online \<le> int n"
    by (simp add: env_online_def)
  note t = second_run_retrievals [of ?w1 env_online "''20240101''" world_empty ?w2, OF refl refl]
  from t h have a: "?w2 = ?w1" by (rule conjunct2 [THEN conjunct2, THEN mp])
  then have b: "requests ?w2 = requests ?w1" by (rule arg_cong)
  show ?thesis using h a b by (intro conjI)
qed

section \<open>The claims about the stages in sequence\<close>

text \<open>
  Claim C1 does not hold of the code. With a file that is not well-formed and a good
  document in the decompressed directory, and the result for the bad file arriving first,
  \<open>xml_to_csv\<close> raises the parse error, in main.py and in vd_pipeline_refactored.py alike;
  the good document, which parses, gets no table. The download and the decompression stage
  catch the exception of each item; this stage does not.
\<close>

theorem parse_error_aborts_stage:
  "xml_to_csv parse_xml_lxml env_offline ''/data/20240101'' world_bad_xml = (Inl ParseError, world_bad_xml)
   \<and> xml_to_csv parse_xml env_offline ''/data/20240101'' world_bad_xml = (Inl ParseError, world_bad_xml)
   \<and> parse_xml_lxml doc_plain \<noteq> Inl ParseError
   \<and> \<not> exists_path ''/data/20240101/csv/VDLive_0001.csv'' world_bad_xml"
proof -
  have a: "xml_to_csv parse_xml_lxml env_offline ''/data/20240101'' world_bad_xml
      = (Inl ParseError, world_bad_xml)" by code_simp
  have b: "xml_to_csv parse_xml env_offline ''/data/20240101'' world_bad_xml
      = (Inl ParseError, world_bad_xml)" by code_simp
  have c: "parse_xml_lxml doc_plain \<noteq> Inl ParseError"
    by (simp add: doc_plain_def parse_xml_lxml_def)
  have d: "\<not> exists_path ''/data/20240101/csv/VDLive_0001.csv'' world_bad_xml" by code_simp
  show ?thesis using a b c d by (intro conjI)
qed

text \<open>
  Claim C10. When the directory of per-document tables holds no \<open>.csv\<close> file,
  \<open>split_by_vdid\<close> raises \<open>ValueError\<close> (\<open>pd.concat\<close> has nothing to concatenate) and
  writes nothing; and when that is the state in which \<open>xml_to_csv\<close> returns,
  \<open>process_day\<close> ends with that exception in that state: neither cleanup nor zip runs.
\<close>

theorem no_tables_raises:
  "(glob csv_dir ''.csv'' w = [] \<longrightarrow> split_by_vdid csv_dir w = (Inl ValueError, w))
   \<and> (xml_to_csv parse e (fst (download_day e date w0))
          (snd (decompress_day (fst (download_day e date w0)) (snd (download_day e date w0))))
        = (Inr csv_dir, w)
      \<and> glob csv_dir ''.csv'' w = []
      \<longrightarrow> process_day parse e date fl w0 = (Inl ValueError, w))"
proof (intro conjI impI)
  assume "glob csv_dir ''.csv'' w = []"
  then show "split_by_vdid csv_dir w = (Inl ValueError, w)" by (rule split_by_vdid_no_tables)
next
  assume a: "xml_to_csv parse e (fst (download_day e date w0))
          (snd (decompress_day (fst (download_day e date w0)) (snd (download_day e date w0))))
        = (Inr csv_dir, w)
      \<and> glob csv_dir ''.csv'' w = []"
  then have s: "split_by_vdid csv_dir w = (Inl ValueError, w)" by (simp add: split_by_vdid_no_tables)
  show "process_day parse e date fl w0 = (Inl ValueError, w)"
    using a s by (simp add: process_day_def split_def)
qed

theorem no_tables_raises_witness:
  "glob ''/data/20240101/csv'' ''.csv'' world_empty = []
   \<and> split_by_vdid ''/data/20240101/csv'' world_empty = (Inl ValueError, world_empty)
   \<and> process_day parse_xml env_offline ''20240101'' flags_default world_empty
      = (Inl ValueError, \<lparr>fs = [], requests = map fst (tasks env_offline ''20240101'')\<rparr>)"
proof -
  let ?w = "\<lparr>fs = [], requests = map fst (tasks env_offline ''20240101'')\<rparr>"
  have off: "\<forall>u. net env_offline u = NoResponse" by (simp add: env_offline_def)
  have g0: "glob ''/data/20240101/csv'' ''.csv'' world_empty = []"
    by (simp add: glob_empty_fs world_empty_def)
  have d: "download_day env_offline ''20240101'' world_empty = (''/data/20240101'', ?w)"
    using run_tasks_offline [OF off, of "tasks env_offline ''20240101''" "[]"]
    by (simp add: download_day_def world_empty_def) (simp add: env_offline_def joinpath_def)
  have g: "\<And>dir suf. glob dir suf ?w = []" by (simp add: glob_empty_fs)
  have u: "decompress_day ''/data/20240101'' ?w = (''/data/20240101/decompressed'', ?w)"
    by (simp add: decompress_day_def Let_def g) (simp add: joinpath_def)
  have x: "xml_to_csv parse_xml env_offline ''/data/20240101'' ?w = (Inr ''/data/20240101/csv'', ?w)"
    by (simp add: xml_to_csv_def Let_def g) (simp add: env_offline_def joinpath_def)
  note t = no_tables_raises [of "''/data/20240101/csv''" _ parse_xml env_offline "''20240101''" world_empty flags_default]
  from t [of world_empty] g0 have a: "split_by_vdid ''/data/20240101/csv'' world_empty = (Inl ValueError, world_empty)"
    by (rule conjunct1 [THEN mp])
  have pre: "xml_to_csv parse_xml env_offline (fst (download_day env_offline ''20240101'' world_empty))
          (snd (decompress_day (fst (download_day env_offline ''20240101'' world_empty))
                 (snd (download_day env_offline ''20240101'' world_empty))))
        = (Inr ''/data/20240101/csv'', ?w)
      \<and> glob ''/data/20240101/csv'' ''.csv'' ?w = []"
    by (simp add: d u x g)
  have b: "process_day parse_xml env_offline ''20240101'' flags_default world_empty
      = (Inl ValueError, ?w)"
    using t [of ?w, THEN conjunct2, THEN mp, OF pre] .
  show ?thesis using g0 a b by (intro conjI)
qed

text \<open>
  Claim C3, as stated, fails: nothing in \<open>batch\<close> catches an exception of \<open>process_day\<close>.
  With an archive that cannot be reached, the first day of a request of two days from
  20240102 ends in \<open>ValueError\<close> (no table to concatenate), the exception leaves \<open>batch\<close>,
  and the second day is never started: only URLs of 20240102 were retrieved.
\<close>

theorem batch_stops_at_failed_day:
  "batch parse_xml env_offline ''20240102'' 2 flags_default world_empty
     = (Inl ValueError, \<lparr>fs = [], requests = map fst (tasks env_offline ''20240102'')\<rparr>)
   \<and> ''https://tisvcloud.freeway.gov.tw/history/motc20/VD/20240101/VDLive_0000.xml.gz''
       \<notin> set (map fst (tasks env_offline ''20240102''))"
proof -
  have off: "\<forall>u. net env_offline u = NoResponse" by (simp add: env_offline_def)
  have ac: "as_completed env_offline [] = []" by (simp add: env_offline_def)
  have dt: "strptime ''20240102'' = Inr \<lparr>year = 2024, month = 1, day = 2\<rparr>" by code_simp
  have fm: "strftime \<lparr>year = 2024, month = 1, day = 2\<rparr> = ''20240102''" by code_simp
  have n: "nat 2 = Suc (Suc 0)" by simp
  have p: "process_day parse_xml env_offline ''20240102'' flags_default \<lparr>fs = [], requests = []\<rparr>
      = (Inl ValueError, \<lparr>fs = [], requests = map fst (tasks env_offline ''20240102'')\<rparr>)"
    using process_day_offline [OF off ac, of parse_xml "''20240102''" flags_default "[]"] by simp
  have l: "batch_loop parse_xml env_offline flags_default (Suc (Suc 0))
             \<lparr>year = 2024, month = 1, day = 2\<rparr> \<lparr>fs = [], requests = []\<rparr>
     = (Inl ValueError, \<lparr>fs = [], requests = map fst (tasks env_offline ''20240102'')\<rparr>)"
    by (simp only: batch_loop.simps fm p prod.case sum.case)
  have "batch parse_xml env_offline ''20240102'' 2 flags_default world_empty
     = (Inl ValueError, \<lparr>fs = [], requests = map fst (tasks env_offline ''20240102'')\<rparr>)"
    by (simp only: batch_def dt sum.case n l world_empty_def)
  then show ?thesis using other_day_not_requested by (intro conjI)
qed

text \<open>
  Claim C3, amended. A request of N days processes the dates from the start date backward,
  one day at a time, and stops at the first day whose processing raises: \<open>batch\<close> ends with
  that exception, in the state that day left, whatever days would have followed. If no day
  raises, all N days are processed. (The first part holds where the calendar reaches N days
  back.)
\<close>

theorem batch_runs_until_first_failure:
  "(length (days_back dt (Suc n)) = Suc n \<longrightarrow>
      batch_loop parse e fl n dt w
        = run_until_failure parse e fl (map strftime (days_back dt n)) w)
   \<and> (run_until_failure parse e fl ds w = (Inr (), wk)
        \<and> process_day parse e d fl wk = (Inl err, w') \<longrightarrow>
      run_until_failure parse e fl (ds @ d # ds') w = (Inl err, w'))
   \<and> (strptime start_date = Inr dt \<longrightarrow>
      batch parse e start_date days fl w = batch_loop parse e fl (nat days) dt w)"
  by (auto simp: batch_loop_refines run_until_failure_append batch_def)

theorem batch_runs_until_first_failure_witness:
  "length (days_back \<lparr>year = 2024, month = 1, day = 2\<rparr> (Suc 2)) = Suc 2
   \<and> batch_loop parse_xml env_offline flags_default 2 \<lparr>year = 2024, month = 1, day = 2\<rparr> world_empty
      = run_until_failure parse_xml env_offline flags_default [''20240102'', ''20240101''] world_empty
   \<and> run_until_failure parse_xml env_offline flags_default [] world_empty = (Inr (), world_empty)
   \<and> process_day parse_xml env_offline ''20240102'' flags_default world_empty
      = (Inl ValueError, \<lparr>fs = [], requests = map fst (tasks env_offline ''20240102'')\<rparr>)
   \<and> run_until_failure parse_xml env_offline flags_default ([] @ ''20240102'' # [''20240101'']) world_empty
      = (Inl ValueError, \<lparr>fs = [], requests = map fst (tasks env_offline ''20240102'')\<rparr>)
   \<and> strptime ''20240102'' = Inr \<lparr>year = 2024, month = 1, day = 2\<rparr>
   \<and> batch parse_xml env_offline ''20240102'' 2 flags_default world_empty
      = batch_loop parse_xml env_offline flags_default (nat 2) \<lparr>year = 2024, month = 1, day = 2\<rparr> world_empty"
proof -
  let ?dt = "\<lparr>year = 2024, month = 1, day = 2\<rparr>"
  let ?w' = "\<lparr>fs = [], requests = map fst (tasks env_offline ''20240102'')\<rparr>"
  have off: "\<forall>u. net env_offline u = NoResponse" by (simp add: env_offline_def)
  have ac: "as_completed env_offline [] = []" by (simp add: env_offline_def)
  have h1: "length (days_back ?dt (Suc 2)) = Suc 2" by code_simp
  have ds: "map strftime (days_back ?dt 2) = [''20240102'', ''20240101'']" by code_simp
  have h2: "run_until_failure parse_xml env_offline flags_default [] world_empty = (Inr (), world_empty)"
    by simp
  have h3: "process_day parse_xml env_offline ''20240102'' flags_default world_empty = (Inl ValueError, ?w')"
    using process_day_offline [OF off ac, of parse_xml "''20240102''" flags_default "[]"]
    by (simp add: world_empty_def)
  have h4: "strptime ''20240102'' = Inr ?dt" by code_simp
  note t = batch_runs_until_first_failure [of ?dt 2 parse_xml env_offline flags_default world_empty
      "[]" world_empty "''20240102''" ValueError ?w' "[''20240101'']" "''20240102''" 2]
  from t h1 have a: "batch_loop parse_xml env_offline flags_default 2 ?dt world_empty
      = run_until_failure parse_xml env_offline flags_default (map strftime (days_back ?dt 2)) world_empty"
    by (rule conjunct1 [THEN mp])
  from t h2 h3 have b: "run_until_failure parse_xml env_offline flags_default
      ([] @ ''20240102'' # [''20240101'']) world_empty = (Inl ValueError, ?w')"
    by blast
  from t h4 have c: "batch parse_xml env_offline ''20240102'' 2 flags_default world_empty
      = batch_loop parse_xml env_offline flags_default (nat 2) ?dt world_empty"
    by blast
  show ?thesis using h1 a [unfolded ds] h2 h3 b h4 c by (intro conjI)
qed


end
